theory Spec2Isabelle
  imports Main
begin

section \<open>Strings\<close>

text \<open>
  A JavaScript string is a sequence of UTF-16 code units. It is modelled as a \<open>string\<close>
  (a list of 8-bit \<open>char\<close>s), the character \<open>c\<close> standing for the code unit of the same
  number: the model covers the code units 0..255 (Latin-1). Length, \<open>substring\<close> and
  \<open>indexOf\<close> count code units, as \<open>length\<close>, \<open>take\<close>/\<open>drop\<close> and \<open>indexOf\<close> below do.
\<close>

type_synonym cls = "char \<Rightarrow> bool"

definition CR :: char where
  "CR = CHR 0x0D"

definition LF :: char where
  "LF = CHR 0x0A"

definition CRLF :: string where
  "CRLF = [CR, LF]"

definition DQ :: char where
  "DQ = CHR 0x22"

definition SQ :: char where
  "SQ = CHR 0x27"

text \<open>The class \<open>\s\<close> of a regular expression, which is also what \<open>trim\<close> strips: tab,
  LF, VT, FF, CR, space and the no-break space (the members below code unit 256).\<close>

definition is_ws :: cls where
  "is_ws c = (of_char c \<in> {9, 10, 11, 12, 13, 32, 160 :: nat})"

text \<open>The line terminators (below code unit 256): what \<open>.\<close> does not match, and where
  \<open>^\<close> and \<open>$\<close> match under the \<open>m\<close> flag.\<close>

definition is_lt :: cls where
  "is_lt c = (c = LF \<or> c = CR)"

definition is_digit :: cls where
  "is_digit c = (48 \<le> (of_char c :: nat) \<and> (of_char c :: nat) \<le> 57)"

definition is_lower :: cls where
  "is_lower c = (97 \<le> (of_char c :: nat) \<and> (of_char c :: nat) \<le> 122)"

definition is_upper :: cls where
  "is_upper c = (65 \<le> (of_char c :: nat) \<and> (of_char c :: nat) \<le> 90)"

definition is_alpha :: cls where
  "is_alpha c = (is_lower c \<or> is_upper c)"

definition is_hex :: cls where
  "is_hex c = (is_digit c \<or> c \<in> set ''abcdefABCDEF'')"

definition upper_ascii :: "char \<Rightarrow> char" where
  "upper_ascii c = (if is_lower c then char_of ((of_char c :: nat) - 32) else c)"

text \<open>\<open>String.prototype.toLowerCase\<close> on the code units 0..255: the ASCII capitals and the
  Latin-1 capitals 0xC0..0xDE (the multiplication sign 0xD7 apart) move up by 32.\<close>

definition lower_char :: "char \<Rightarrow> char" where
  "lower_char c =
     (let n = (of_char c :: nat) in
      if is_upper c \<or> (192 \<le> n \<and> n \<le> 222 \<and> n \<noteq> 215) then char_of (n + 32) else c)"

definition toLowerCase :: "string \<Rightarrow> string" where
  "toLowerCase s = map lower_char s"

definition trim :: "string \<Rightarrow> string" where
  "trim s = rev (dropWhile is_ws (rev (dropWhile is_ws s)))"

definition startsWith :: "string \<Rightarrow> string \<Rightarrow> bool" where
  "startsWith s p = (take (length p) s = p)"

text \<open>\<open>s.indexOf(p)\<close>: the first index where \<open>p\<close> occurs, \<open>None\<close> for -1.\<close>

fun indexOf_from :: "nat \<Rightarrow> string \<Rightarrow> string \<Rightarrow> nat option" where
  "indexOf_from i [] p = (if p = [] then Some i else None)"
| "indexOf_from i (x # xs) p =
     (if startsWith (x # xs) p then Some i else indexOf_from (Suc i) xs p)"

definition indexOf :: "string \<Rightarrow> string \<Rightarrow> nat option" where
  "indexOf s p = indexOf_from 0 s p"

definition str_includes :: "string \<Rightarrow> string \<Rightarrow> bool" where
  "str_includes s p = (indexOf s p \<noteq> None)"

text \<open>The part of a block after its first blank line, as both decoders take it:
  \<open>i = s.indexOf('\r\n\r\n'); i > 0 ? s.substring(i + 4) : dflt\<close>.\<close>

definition after_blank_line :: "string \<Rightarrow> string \<Rightarrow> string" where
  "after_blank_line s dflt =
     (case indexOf s (CRLF @ CRLF) of
        None \<Rightarrow> dflt
      | Some i \<Rightarrow> if 0 < i then drop (i + 4) s else dflt)"

text \<open>
  A JavaScript number is a double. Every natural number below \<open>2^53\<close> is one:
  \<open>Exact n\<close>. For decimal digits whose value \<open>n\<close> is \<open>2^53\<close> or more, \<open>parseInt\<close>
  returns the double that \<open>n\<close> rounds to (9007199254740992 for the digits
  \<open>9007199254740993\<close>, infinity at last; after the 20th significant digit ECMAScript leaves
  the rounding to the implementation): \<open>Rounded n\<close> stands for that double, which the
  model names and does not compute.
\<close>

datatype number = Exact nat | Rounded nat

definition digit_val :: "char \<Rightarrow> nat" where
  "digit_val c = (of_char c :: nat) - 48"

text \<open>\<open>parseInt\<close> of a string of decimal digits.\<close>

definition parseInt :: "string \<Rightarrow> number" where
  "parseInt s =
     (let n = foldl (\<lambda>a c. 10 * a + digit_val c) 0 s
      in if int n < 2 ^ 53 then Exact n else Rounded n)"

text \<open>The decimal digits of a natural number: what a template string prints for a number
  below \<open>2^53\<close>.\<close>

fun show_nat :: "nat \<Rightarrow> string" where
  "show_nat n = (if n < 10 then [char_of (48 + n)] else show_nat (n div 10) @ [char_of (48 + n mod 10)])"

declare show_nat.simps [simp del]

definition hex_val :: "char \<Rightarrow> nat" where
  "hex_val c = (if is_digit c then (of_char c :: nat) - 48
                else if is_lower c then (of_char c :: nat) - 87
                else (of_char c :: nat) - 55)"

section \<open>Regular expressions\<close>

text \<open>
  The regular expressions of the source are sequences of literals, single characters of a
  class, greedy and lazy repetitions of a class, an optional class, an optional group,
  capture groups and the anchors. \<open>rx_seq\<close> is the backtracking matcher of ECMAScript on
  such a sequence at one position: a greedy repetition tries the longest run first and gives
  back one character at a time, a lazy one the shortest first; an optional group
  (\<open>OptGrp g\<close>: the next \<open>g\<close> items, optional) is tried and, when the rest then fails,
  skipped. \<open>pre\<close> is the text before the position, reversed; \<open>suf\<close> the text from it;
  \<open>n\<close> counts the characters matched so far.
\<close>

record flags =
  icase :: bool
  multiline :: bool

definition no_flags :: flags where
  "no_flags = \<lparr>icase = False, multiline = False\<rparr>"

definition flag_i :: flags where
  "flag_i = \<lparr>icase = True, multiline = False\<rparr>"

definition flag_im :: flags where
  "flag_im = \<lparr>icase = True, multiline = True\<rparr>"

datatype rx = Lit string | One cls | Rep nat cls | Lazy nat cls | Opt cls
  | OptGrp nat | Open nat | Close nat | Bol | Eol

type_synonym caps = "(nat \<times> string) list"

fun first_some :: "'a option list \<Rightarrow> 'a option" where
  "first_some [] = None"
| "first_some (x # xs) = (case x of Some v \<Rightarrow> Some v | None \<Rightarrow> first_some xs)"

text \<open>A literal at the head of the text, compared under the \<open>i\<close> flag when \<open>ic\<close> is
  set: the rest of the text, or \<open>None\<close>. The literals of the source are ASCII, and a code
  unit above 127 never canonicalises to an ASCII one.\<close>

fun lit_rest :: "bool \<Rightarrow> string \<Rightarrow> string \<Rightarrow> string option" where
  "lit_rest ic [] s = Some s"
| "lit_rest ic (p # ps) [] = None"
| "lit_rest ic (p # ps) (x # xs) =
     (if x = p then lit_rest ic ps xs
      else if ic then (if upper_ascii x = upper_ascii p then lit_rest ic ps xs else None)
      else None)"

fun rx_seq :: "flags \<Rightarrow> rx list \<Rightarrow> string \<Rightarrow> string \<Rightarrow> nat \<Rightarrow> (nat \<times> nat) list \<Rightarrow> caps
    \<Rightarrow> (nat \<times> caps) option" where
  "rx_seq fl [] pre suf n ops cs = Some (n, cs)"
| "rx_seq fl (Lit l # r) pre suf n ops cs =
     (case lit_rest (icase fl) l suf of
        None \<Rightarrow> None
      | Some rest \<Rightarrow> rx_seq fl r (rev (take (length l) suf) @ pre) rest (n + length l) ops cs)"
| "rx_seq fl (One c # r) pre suf n ops cs =
     (case suf of [] \<Rightarrow> None
      | x # xs \<Rightarrow> if c x then rx_seq fl r (x # pre) xs (Suc n) ops cs else None)"
| "rx_seq fl (Rep k c # r) pre suf n ops cs =
     first_some (map (\<lambda>j. rx_seq fl r (rev (take j suf) @ pre) (drop j suf) (n + j) ops cs)
       (rev [k ..< Suc (length (takeWhile c suf))]))"
| "rx_seq fl (Lazy k c # r) pre suf n ops cs =
     first_some (map (\<lambda>j. rx_seq fl r (rev (take j suf) @ pre) (drop j suf) (n + j) ops cs)
       [k ..< Suc (length (takeWhile c suf))])"
| "rx_seq fl (Opt c # r) pre suf n ops cs =
     (case (case suf of [] \<Rightarrow> None
            | x # xs \<Rightarrow> if c x then rx_seq fl r (x # pre) xs (Suc n) ops cs else None) of
        Some m \<Rightarrow> Some m
      | None \<Rightarrow> rx_seq fl r pre suf n ops cs)"
| "rx_seq fl (OptGrp g # r) pre suf n ops cs =
     (case rx_seq fl r pre suf n ops cs of
        Some m \<Rightarrow> Some m
      | None \<Rightarrow> rx_seq fl (drop g r) pre suf n ops cs)"
| "rx_seq fl (Open g # r) pre suf n ops cs = rx_seq fl r pre suf n ((g, n) # ops) cs"
| "rx_seq fl (Close g # r) pre suf n ops cs =
     (case map_of ops g of
        None \<Rightarrow> rx_seq fl r pre suf n ops cs
      | Some st \<Rightarrow> rx_seq fl r pre suf n ops ((g, rev (take (n - st) pre)) # cs))"
| "rx_seq fl (Bol # r) pre suf n ops cs =
     (if pre = [] \<or> (multiline fl \<and> is_lt (hd pre)) then rx_seq fl r pre suf n ops cs else None)"
| "rx_seq fl (Eol # r) pre suf n ops cs =
     (if suf = [] \<or> (multiline fl \<and> is_lt (hd suf)) then rx_seq fl r pre suf n ops cs else None)"

definition rx_here :: "flags \<Rightarrow> rx list \<Rightarrow> string \<Rightarrow> string \<Rightarrow> (nat \<times> caps) option" where
  "rx_here fl r pre suf = rx_seq fl r pre suf 0 [] []"

text \<open>\<open>s.match(re)\<close> without the \<open>g\<close> flag: the leftmost match, as (index, length,
  captures).\<close>

fun rx_search :: "flags \<Rightarrow> rx list \<Rightarrow> string \<Rightarrow> string \<Rightarrow> (nat \<times> nat \<times> caps) option" where
  "rx_search fl r pre [] =
     (case rx_here fl r pre [] of None \<Rightarrow> None | Some (n, cs) \<Rightarrow> Some (length pre, n, cs))"
| "rx_search fl r pre (x # xs) =
     (case rx_here fl r pre (x # xs) of
        None \<Rightarrow> rx_search fl r (x # pre) xs
      | Some (n, cs) \<Rightarrow> Some (length pre, n, cs))"

definition match_group :: "flags \<Rightarrow> rx list \<Rightarrow> nat \<Rightarrow> string \<Rightarrow> string option" where
  "match_group fl r g s =
     (case rx_search fl r [] s of None \<Rightarrow> None | Some (i, n, cs) \<Rightarrow> map_of cs g)"

text \<open>\<open>s.replace(re, f)\<close> with the \<open>g\<close> flag: every leftmost match, left to right, is
  replaced by \<open>f\<close> of the matched text and its captures. \<open>k\<close> is the number of characters
  of the last match still to skip.\<close>

fun gsub_from :: "flags \<Rightarrow> rx list \<Rightarrow> (string \<Rightarrow> caps \<Rightarrow> string) \<Rightarrow> string \<Rightarrow> nat \<Rightarrow> string
    \<Rightarrow> string" where
  "gsub_from fl r f pre k [] =
     (if k = 0 then (case rx_here fl r pre [] of None \<Rightarrow> [] | Some (n, cs) \<Rightarrow> f [] cs) else [])"
| "gsub_from fl r f pre (Suc k) (x # xs) = gsub_from fl r f (x # pre) k xs"
| "gsub_from fl r f pre 0 (x # xs) =
     (case rx_here fl r pre (x # xs) of
        None \<Rightarrow> x # gsub_from fl r f (x # pre) 0 xs
      | Some (n, cs) \<Rightarrow>
          f (take n (x # xs)) cs @
          (if n = 0 then x # gsub_from fl r f (x # pre) 0 xs
           else gsub_from fl r f (x # pre) (n - 1) xs))"

definition replace_all :: "flags \<Rightarrow> rx list \<Rightarrow> (string \<Rightarrow> caps \<Rightarrow> string) \<Rightarrow> string \<Rightarrow> string" where
  "replace_all fl r f s = gsub_from fl r f [] 0 s"

definition replace_with :: "flags \<Rightarrow> rx list \<Rightarrow> string \<Rightarrow> string \<Rightarrow> string" where
  "replace_with fl r t s = replace_all fl r (\<lambda>w cs. t) s"

text \<open>\<open>s.split(re)\<close> for an expression without capture groups. \<open>cur\<close> is the piece in
  progress, reversed.\<close>

fun split_from :: "flags \<Rightarrow> rx list \<Rightarrow> string \<Rightarrow> string \<Rightarrow> nat \<Rightarrow> string \<Rightarrow> string list" where
  "split_from fl r cur pre k [] = [rev cur]"
| "split_from fl r cur pre (Suc k) (x # xs) = split_from fl r cur (x # pre) k xs"
| "split_from fl r cur pre 0 (x # xs) =
     (case rx_here fl r pre (x # xs) of
        None \<Rightarrow> split_from fl r (x # cur) (x # pre) 0 xs
      | Some (n, cs) \<Rightarrow>
          if n = 0 then
            (if cur = [] then split_from fl r [x] (x # pre) 0 xs
             else rev cur # split_from fl r [x] (x # pre) 0 xs)
          else rev cur # split_from fl r [] (x # pre) (n - 1) xs)"

definition split_rx :: "flags \<Rightarrow> rx list \<Rightarrow> string \<Rightarrow> string list" where
  "split_rx fl r s =
     (if s = [] then (case rx_here fl r [] [] of None \<Rightarrow> [[]] | Some m \<Rightarrow> [])
      else split_from fl r [] [] 0 s)"

section \<open>The platform\<close>

text \<open>
  What the source takes from Node and the JavaScript runtime, as parameters:
  \<^item> \<open>base64_utf8 s\<close> is \<open>Buffer.from(s, 'base64').toString('utf-8')\<close> and
    \<open>base64_latin1 s\<close> is \<open>Buffer.from(s, 'base64').toString('latin1')\<close> (neither throws);
  \<^item> \<open>date_to_iso s\<close> is \<open>new Date(s).toISOString()\<close>, \<open>None\<close> when the date is
    invalid and \<open>toISOString\<close> throws a RangeError;
  \<^item> \<open>now_iso k\<close> is \<open>new Date().toISOString()\<close> and \<open>new_email_id k\<close> is
    \<open>generateEmailId()\<close> (the clock and a random number), at the call for message \<open>k\<close>;
  \<^item> \<open>double_text n\<close> is what a template string prints for the number \<open>Rounded n\<close>:
    the digits of the double that \<open>n\<close> rounds to (the shortest that read back as it,
    then zeros), in exponent form from \<open>1e21\<close> on, or \<open>Infinity\<close>.
\<close>

record node_env =
  base64_utf8 :: "string \<Rightarrow> string"
  base64_latin1 :: "string \<Rightarrow> string"
  date_to_iso :: "string \<Rightarrow> string option"
  now_iso :: "nat \<Rightarrow> string"
  new_email_id :: "nat \<Rightarrow> string"
  double_text :: "nat \<Rightarrow> string"

text \<open>A number in a template string.\<close>

definition number_text :: "node_env \<Rightarrow> number \<Rightarrow> string" where
  "number_text env x = (case x of Exact n \<Rightarrow> show_nat n | Rounded n \<Rightarrow> double_text env n)"

text \<open>The shape of what \<open>toISOString\<close> returns: \<open>YYYY-MM-DDTHH:mm:ss.sssZ\<close>, or the same
  with a sign and a six-digit year.\<close>

definition fits :: "string \<Rightarrow> string \<Rightarrow> bool" where
  "fits template s = list_all2 (\<lambda>t c. if t = CHR ''d'' then is_digit c else c = t) template s"

definition iso8601 :: "string \<Rightarrow> bool" where
  "iso8601 s = (fits ''dddd-dd-ddTdd:dd:dd.dddZ'' s \<or> fits ''+dddddd-dd-ddTdd:dd:dd.dddZ'' s
                \<or> fits ''-dddddd-dd-ddTdd:dd:dd.dddZ'' s)"

definition env_ok :: "node_env \<Rightarrow> bool" where
  "env_ok env = ((\<forall>k. iso8601 (now_iso env k)) \<and> (\<forall>h d. date_to_iso env h = Some d \<longrightarrow> iso8601 d))"

section \<open>Headers and addresses\<close>

text \<open>A capture group of a match; a group that did not take part is \<open>undefined\<close> in
  the source and the empty string here (every use below is of a group that took part, or is
  guarded).\<close>

definition cap :: "caps \<Rightarrow> nat \<Rightarrow> string" where
  "cap cs g = (case map_of cs g of None \<Rightarrow> [] | Some t \<Rightarrow> t)"

definition local_cls :: cls where
  "local_cls c = (is_alpha c \<or> is_digit c \<or> c \<in> set ''._%+-'')"

definition domain_cls :: cls where
  "domain_cls c = (is_alpha c \<or> is_digit c \<or> c \<in> set ''.-'')"

text \<open>\<open>[a-zA-Z0-9._%+-]+@[a-zA-Z0-9.-]+\.[a-zA-Z]{2,}\<close>, in capture group \<open>g\<close>.\<close>

definition rx_address :: "nat \<Rightarrow> rx list" where
  "rx_address g = [Open g, Rep 1 local_cls, Lit ''@'', Rep 1 domain_cls, Lit ''.'', Rep 2 is_alpha, Close g]"

text \<open>\<open>/(?:"?([^"]*)"?\s)?<?(address)>?/i\<close>\<close>

definition rx_named_address :: "rx list" where
  "rx_named_address =
     [OptGrp 6, Opt (\<lambda>c. c = DQ), Open 1, Rep 0 (\<lambda>c. c \<noteq> DQ), Close 1, Opt (\<lambda>c. c = DQ), One is_ws,
      Opt (\<lambda>c. c = CHR ''<'')] @ rx_address 2 @ [Opt (\<lambda>c. c = CHR ''>'')]"

text \<open>\<open>a || b\<close> on strings: the empty string is the only falsy one.\<close>

definition or_else :: "string \<Rightarrow> string \<Rightarrow> string" where
  "or_else a b = (if a \<noteq> [] then a else b)"

definition parseEmailAddress :: "string \<Rightarrow> string \<times> string" where
  "parseEmailAddress header =
     (if header = [] then ([], [])
      else case rx_search flag_i rx_named_address [] header of
        Some (i, n, cs) \<Rightarrow>
          (or_else (case map_of cs 1 of None \<Rightarrow> [] | Some t \<Rightarrow> trim t) (cap cs 2), cap cs 2)
      | None \<Rightarrow>
          (case rx_search flag_i (rx_address 1) [] header of
             Some (i, n, cs) \<Rightarrow> (cap cs 1, cap cs 1)
           | None \<Rightarrow> (header, header)))"

definition hex_char :: "string \<Rightarrow> string" where
  "hex_char hex = [char_of (foldl (\<lambda>a c. 16 * a + hex_val c) 0 hex)]"

text \<open>\<open>s.replace(/=([0-9A-F]{2})/gi, (_, hex) => String.fromCharCode(parseInt(hex, 16)))\<close>\<close>

definition unescape_hex :: "string \<Rightarrow> string" where
  "unescape_hex s =
     replace_all flag_i [Lit ''='', Open 1, One is_hex, One is_hex, Close 1] (\<lambda>w cs. hex_char (cap cs 1)) s"

definition base64_cls :: cls where
  "base64_cls c = (is_alpha c \<or> is_digit c \<or> c \<in> set ''+/='')"

definition rx_word_b :: "rx list" where
  "rx_word_b = [Lit ''=?UTF-8?B?'', Open 1, Rep 1 base64_cls, Close 1, Lit ''?='']"

definition rx_word_q :: "string \<Rightarrow> rx list" where
  "rx_word_q charset =
     [Lit (''=?'' @ charset @ ''?Q?''), Open 1, Rep 1 (\<lambda>c. c \<noteq> CHR ''?''), Close 1, Lit ''?='']"

definition decodeMimeWord :: "node_env \<Rightarrow> string \<Rightarrow> string" where
  "decodeMimeWord env str =
     (if str = [] then []
      else replace_all flag_i (rx_word_q ''ISO-8859-1'') (\<lambda>w cs. unescape_hex (cap cs 1))
             (replace_all flag_i (rx_word_q ''UTF-8'') (\<lambda>w cs. unescape_hex (cap cs 1))
               (replace_all flag_i rx_word_b (\<lambda>w cs. base64_utf8 env (cap cs 1)) str)))"

section \<open>The MIME decoder\<close>

definition decodeQuotedPrintable :: "string \<Rightarrow> string" where
  "decodeQuotedPrintable str =
     (if str = [] then []
      else unescape_hex (replace_with no_flags [Lit (''='' @ CRLF)] [] str))"

definition decodeBase64 :: "node_env \<Rightarrow> string \<Rightarrow> string \<Rightarrow> string" where
  "decodeBase64 env str charset =
     (if str = [] then []
      else let cleanStr = replace_with no_flags [One is_ws] [] str in
        if toLowerCase charset = ''utf-8'' \<or> toLowerCase charset = ''utf8'' then base64_utf8 env cleanStr
        else if toLowerCase charset = ''iso-8859-1'' \<or> toLowerCase charset = ''latin1''
          then base64_latin1 env cleanStr
        else base64_utf8 env cleanStr)"

text \<open>\<open>/Content-Type:\s*multipart\/[^;]+;\s*boundary="?([^"\r\n]+)"?/i\<close>\<close>

definition rx_boundary :: "rx list" where
  "rx_boundary =
     [Lit ''Content-Type:'', Rep 0 is_ws, Lit ''multipart/'', Rep 1 (\<lambda>c. c \<noteq> CHR '';''), Lit '';'',
      Rep 0 is_ws, Lit ''boundary='', Opt (\<lambda>c. c = DQ),
      Open 1, Rep 1 (\<lambda>c. c \<noteq> DQ \<and> c \<noteq> CR \<and> c \<noteq> LF), Close 1, Opt (\<lambda>c. c = DQ)]"

text \<open>\<open>/Content-Type:\s*([^;\r\n]+)/i\<close>\<close>

definition rx_content_type :: "rx list" where
  "rx_content_type =
     [Lit ''Content-Type:'', Rep 0 is_ws,
      Open 1, Rep 1 (\<lambda>c. c \<noteq> CHR '';'' \<and> c \<noteq> CR \<and> c \<noteq> LF), Close 1]"

text \<open>\<open>/Content-Type:[^;]*;\s*charset=["']?([^"'\r\n]+)["']?/i\<close>\<close>

definition rx_charset :: "rx list" where
  "rx_charset =
     [Lit ''Content-Type:'', Rep 0 (\<lambda>c. c \<noteq> CHR '';''), Lit '';'', Rep 0 is_ws, Lit ''charset='',
      Opt (\<lambda>c. c = DQ \<or> c = SQ),
      Open 1, Rep 1 (\<lambda>c. c \<noteq> DQ \<and> c \<noteq> SQ \<and> c \<noteq> CR \<and> c \<noteq> LF), Close 1,
      Opt (\<lambda>c. c = DQ \<or> c = SQ)]"

text \<open>\<open>/Content-Transfer-Encoding:\s*([^\r\n]+)/i\<close>\<close>

definition rx_encoding :: "rx list" where
  "rx_encoding =
     [Lit ''Content-Transfer-Encoding:'', Rep 0 is_ws, Open 1, Rep 1 (\<lambda>c. c \<noteq> CR \<and> c \<noteq> LF), Close 1]"

definition partContentType :: "string \<Rightarrow> string \<Rightarrow> string" where
  "partContentType dflt part =
     (case match_group flag_i rx_content_type 1 part of
        None \<Rightarrow> dflt | Some t \<Rightarrow> toLowerCase (trim t))"

definition partCharset :: "string \<Rightarrow> string" where
  "partCharset part =
     (case match_group flag_i rx_charset 1 part of None \<Rightarrow> ''utf-8'' | Some t \<Rightarrow> trim t)"

definition partEncoding :: "string \<Rightarrow> string" where
  "partEncoding part =
     (case match_group flag_i rx_encoding 1 part of
        None \<Rightarrow> ''7bit'' | Some t \<Rightarrow> toLowerCase (trim t))"

text \<open>The body of a part (after its first blank line, the whole part when there is none),
  decoded by the part's transfer encoding.\<close>

definition decodedPart :: "node_env \<Rightarrow> string \<Rightarrow> string" where
  "decodedPart env part =
     (let partBody = after_blank_line part part in
      if partEncoding part = ''base64'' then decodeBase64 env partBody (partCharset part)
      else if partEncoding part = ''quoted-printable'' then decodeQuotedPrintable partBody
      else partBody)"

text \<open>One round of the loop over the parts; the pair is \<open>(textContent, htmlContent)\<close>.\<close>

definition part_step :: "node_env \<Rightarrow> string \<times> string \<Rightarrow> string \<Rightarrow> string \<times> string" where
  "part_step env th part =
     (if trim part = ''--'' \<or> trim part = [] then th
      else if str_includes (partContentType [] part) ''text/plain'' \<and> fst th = []
        then (decodedPart env part, snd th)
      else if str_includes (partContentType [] part) ''text/html'' \<and> snd th = []
        then (fst th, decodedPart env part)
      else th)"

text \<open>The boundary is escaped before it becomes a regular expression, so the parts are
  split on the literal text \<open>--boundary\<close>.\<close>

definition multipart_parts :: "string \<Rightarrow> string \<Rightarrow> string list" where
  "multipart_parts boundary rawBody = split_rx no_flags [Lit (''--'' @ boundary)] rawBody"

definition single_part :: "node_env \<Rightarrow> string \<Rightarrow> string \<times> string" where
  "single_part env rawBody =
     (if str_includes (partContentType ''text/plain'' rawBody) ''text/html''
      then ([], decodedPart env rawBody)
      else (decodedPart env rawBody, []))"

definition stripHtml :: "string \<Rightarrow> string" where
  "stripHtml htmlContent =
     trim
      (replace_with no_flags [Rep 1 is_ws] '' ''
      (replace_with no_flags [Lit ''&quot;''] [DQ]
      (replace_with no_flags [Lit ''&gt;''] ''>''
      (replace_with no_flags [Lit ''&lt;''] ''<''
      (replace_with no_flags [Lit ''&amp;''] ''&''
      (replace_with no_flags [Lit ''&nbsp;''] '' ''
      (replace_with no_flags [Lit ''<'', Rep 1 (\<lambda>c. c \<noteq> CHR ''>''), Lit ''>''] '' ''
      (replace_with flag_i
         [Lit ''<script'', Rep 0 (\<lambda>c. c \<noteq> CHR ''>''), Lit ''>'', Lazy 0 (\<lambda>c. True), Lit ''</script>''] []
      (replace_with flag_i
         [Lit ''<style'', Rep 0 (\<lambda>c. c \<noteq> CHR ''>''), Lit ''>'', Lazy 0 (\<lambda>c. True), Lit ''</style>''] []
         htmlContent)))))))))"

definition fallbackText :: "string \<Rightarrow> string" where
  "fallbackText rawBody =
     trim
      (replace_with no_flags [Lit (CRLF @ CRLF)] [LF]
      (replace_with flag_i [Lit ''--'', Rep 1 (\<lambda>c. is_hex c \<or> c = CHR ''-'')] []
      (replace_with flag_i [Lit ''Content-Disposition:'', Rep 1 (\<lambda>c. c \<noteq> CR \<and> c \<noteq> LF), Lit CRLF] []
      (replace_with flag_i [Lit ''Content-Transfer-Encoding:'', Rep 1 (\<lambda>c. c \<noteq> CR \<and> c \<noteq> LF), Lit CRLF] []
      (replace_with flag_i [Lit ''Content-Type:'', Rep 1 (\<lambda>c. c \<noteq> CR \<and> c \<noteq> LF), Lit CRLF] []
         rawBody)))))"

definition mime_contents :: "node_env \<Rightarrow> string \<Rightarrow> string \<times> string" where
  "mime_contents env rawBody =
     (case match_group flag_i rx_boundary 1 rawBody of
        Some b \<Rightarrow> foldl (part_step env) ([], []) (multipart_parts (trim b) rawBody)
      | None \<Rightarrow> single_part env rawBody)"

definition parseMIMEBody :: "node_env \<Rightarrow> string \<Rightarrow> string" where
  "parseMIMEBody env rawBody =
     (if rawBody = [] then []
      else let th = mime_contents env rawBody in
        if fst th \<noteq> [] then trim (fst th)
        else if snd th \<noteq> [] then stripHtml (snd th)
        else fallbackText rawBody)"

section \<open>Message records\<close>

text \<open>The interface \<open>Email\<close> of the source (\<open>folder\<close> and \<open>attachments\<close>, which neither
  retrieval path sets, are left out); \<open>to\<close> is never set either.\<close>

record Email =
  email_id :: string
  from_name :: string
  fromEmail :: string
  toEmail :: "string option"
  subject :: string
  body :: string
  date :: string
  read :: bool
  starred :: bool

text \<open>\<open>parsed.substring(0, 5000) || '(No content)'\<close>, the body field on both paths.\<close>

definition body_field :: "string \<Rightarrow> string" where
  "body_field parsedBody = or_else (take 5000 parsedBody) ''(No content)''"

text \<open>\<open>getHeader\<close> of \<open>parseEmailFromRaw\<close>: the first match of
  \<open>new RegExp(`^${name}:\\s*(.+)$`, 'im')\<close> in the header block, its group trimmed.\<close>

definition rx_header :: "string \<Rightarrow> rx list" where
  "rx_header name =
     [Bol, Lit (name @ '':''), Rep 0 is_ws, Open 1, Rep 1 (\<lambda>c. \<not> is_lt c), Close 1, Eol]"

definition getHeader :: "string \<Rightarrow> string \<Rightarrow> string" where
  "getHeader headers name =
     (case match_group flag_im (rx_header name) 1 headers of None \<Rightarrow> [] | Some t \<Rightarrow> trim t)"

definition header_block :: "string \<Rightarrow> string" where
  "header_block raw =
     (case indexOf raw (CRLF @ CRLF) of
        None \<Rightarrow> raw
      | Some headerEnd \<Rightarrow> if 0 < headerEnd then take headerEnd raw else raw)"

text \<open>\<open>parseEmailFromRaw\<close>, for the message number \<open>k\<close> of the session:
  \<open>message_record\<close> is the record its \<open>try\<close> block returns. Nothing in that block throws
  (the regular expressions are fixed, \<open>Buffer\<close> decoding does not throw), so the \<open>catch\<close>
  that returns \<open>null\<close> is never taken and the result is always a record.\<close>

definition message_record :: "node_env \<Rightarrow> nat \<Rightarrow> string \<Rightarrow> Email" where
  "message_record env k raw =
     (let headers = header_block raw;
          rawBody = after_blank_line raw [];
          parsed = parseEmailAddress (getHeader headers ''From'');
          parsedBody = parseMIMEBody env rawBody
      in \<lparr>email_id = new_email_id env k,
          from_name = or_else (decodeMimeWord env (fst parsed)) (or_else (snd parsed) ''Unknown''),
          fromEmail = snd parsed,
          toEmail = None,
          subject = or_else (decodeMimeWord env (getHeader headers ''Subject'')) ''(No Subject)'',
          body = body_field parsedBody,
          date = or_else (getHeader headers ''Date'') (now_iso env k),
          read = True,
          starred = False\<rparr>)"

definition parseEmailFromRaw :: "node_env \<Rightarrow> nat \<Rightarrow> string \<Rightarrow> Email option" where
  "parseEmailFromRaw env k raw = Some (message_record env k raw)"

text \<open>The handler of a message's \<open>end\<close> event in \<open>fetchIMAPEmails\<close>: \<open>headers\<close> maps the
  lower-cased names of the fetched header fields to their values, \<open>bodyBuffer\<close> is the
  \<open>TEXT\<close> section. A missing header and an empty one are both falsy. The result is
  \<open>None\<close> when the record is not pushed.\<close>

definition hdr :: "(string \<rightharpoonup> string) \<Rightarrow> string \<Rightarrow> string" where
  "hdr headers name = (case headers name of None \<Rightarrow> [] | Some v \<Rightarrow> v)"

definition imap_date :: "node_env \<Rightarrow> nat \<Rightarrow> string \<Rightarrow> string" where
  "imap_date env k h =
     (if h = [] then now_iso env k
      else case date_to_iso env h of Some d \<Rightarrow> d | None \<Rightarrow> h)"

definition imap_message_end :: "node_env \<Rightarrow> nat \<Rightarrow> (string \<rightharpoonup> string) \<Rightarrow> string \<Rightarrow> Email option" where
  "imap_message_end env k headers bodyBuffer =
     (let parsed = parseEmailAddress (hdr headers ''from'');
          email = \<lparr>email_id =
                     (if hdr headers ''message-id'' \<noteq> []
                      then replace_with no_flags [One (\<lambda>c. c = CHR ''<'' \<or> c = CHR ''>'')] []
                             (hdr headers ''message-id'')
                      else new_email_id env k),
                   from_name =
                     (if hdr headers ''from'' \<noteq> []
                      then or_else (decodeMimeWord env (fst parsed)) (snd parsed) else ''Unknown''),
                   fromEmail = (if hdr headers ''from'' \<noteq> [] then snd parsed else []),
                   toEmail = (if hdr headers ''to'' \<noteq> [] then Some (hdr headers ''to'') else None),
                   subject =
                     (if hdr headers ''subject'' \<noteq> []
                      then or_else (decodeMimeWord env (hdr headers ''subject'')) ''(No Subject)''
                      else ''(No Subject)''),
                   body = body_field (parseMIMEBody env bodyBuffer),
                   date = imap_date env k (hdr headers ''date''),
                   read = True,
                   starred = False\<rparr>
      in if subject email \<noteq> [] \<or> fromEmail email \<noteq> [] then Some email else None)"

section \<open>The POP3 session\<close>

datatype encryption = SSL | TLS | NONE

text \<open>The configuration of a mailbox. \<open>port\<close> is a TCP port, a natural number below 65536
  (\<open>net.connect\<close> and \<open>tls.connect\<close> accept no other), which a template string prints as
  \<open>show_nat\<close> does.\<close>

record POP3EmailConfig =
  host :: string
  port :: nat
  username :: string
  password :: string
  encryption :: encryption

text \<open>\<open>currentStep\<close>, one constructor for each of its string values.\<close>

datatype step = StepGreeting | StepStls | StepUser | StepPass | StepList | StepRetr

text \<open>What the variable \<open>socket\<close> refers to: the plain TCP socket of \<open>net.connect\<close>, the
  TLS socket of \<open>tls.connect\<close> to the host (implicit TLS), or the TLS socket that
  \<open>upgradeToTLS\<close> wraps around the plain one.\<close>

datatype handle = PlainSocket | TlsSocket | UpgradedSocket

text \<open>The outcome the promise resolves with: \<open>{success: true, emails}\<close> or
  \<open>{success: false, error}\<close>.\<close>

datatype fetch_result = Fetched "Email list" | Failed string

text \<open>The two \<open>setTimeout\<close> callbacks of \<open>processLine\<close>: after an empty list (100 ms)
  and after the last message (500 ms).\<close>

datatype deferred = ResolveEmpty | ResolveDone

text \<open>What the session has done, in order: \<open>Line l\<close> when \<open>processLine\<close> takes the line
  \<open>l\<close>; \<open>Parsed e\<close> when it has decoded a message into the record \<open>e\<close> and pushed it
  (the source logs \<open>Parsed email\<close> there); \<open>Sent h cmd\<close> when \<open>sendCmd\<close> logs the command
  \<open>cmd\<close>, where \<open>h\<close> is the handle it is written to, \<open>None\<close> when the socket is
  destroyed and nothing is written.\<close>

datatype action = Line string | Parsed Email | Sent "handle option" string

record list_entry =
  msg_num :: number
  msg_size :: number

text \<open>The variables of the closure of \<open>fetchPOP3Emails\<close>, and what the model adds to
  them: whether the current socket is destroyed, whether the \<open>data\<close> and \<open>close\<close>
  listeners are attached to it, the number of TLS handshakes under way, whether the
  25-second timer is cleared (or has fired), the pending \<open>setTimeout\<close> callbacks, the
  value the promise is resolved with, and the trace of actions.\<close>

record pop3_state =
  socket :: handle
  resolved :: bool
  emails :: "Email list"
  dataBuffer :: string
  currentStep :: step
  emailList :: "list_entry list"
  currentEmailData :: string
  currentEmailIndex :: nat
  startTLSUpgradePending :: bool
  destroyed :: bool
  listening :: bool
  handshakes :: nat
  timeoutCleared :: bool
  timers :: "deferred list"
  result :: "fetch_result option"
  trace :: "action list"

definition init :: "POP3EmailConfig \<Rightarrow> pop3_state" where
  "init config =
     \<lparr>socket = (if encryption config = SSL then TlsSocket else PlainSocket),
      resolved = False, emails = [], dataBuffer = [], currentStep = StepGreeting,
      emailList = [], currentEmailData = [], currentEmailIndex = 0,
      startTLSUpgradePending = False, destroyed = False, listening = True, handshakes = 0,
      timeoutCleared = False, timers = [], result = None, trace = []\<rparr>"

definition cleanup :: "pop3_state \<Rightarrow> pop3_state" where
  "cleanup s = s\<lparr>destroyed := True\<rparr>"

definition clearTimeout :: "pop3_state \<Rightarrow> pop3_state" where
  "clearTimeout s = s\<lparr>timeoutCleared := True\<rparr>"

text \<open>A promise is resolved once: a later \<open>resolve\<close> changes nothing.\<close>

definition resolve :: "fetch_result \<Rightarrow> pop3_state \<Rightarrow> pop3_state" where
  "resolve r s = (if result s = None then s\<lparr>result := Some r\<rparr> else s)"

definition sendCmd :: "string \<Rightarrow> pop3_state \<Rightarrow> pop3_state" where
  "sendCmd cmd s =
     s\<lparr>trace := trace s @ [Sent (if destroyed s then None else Some (socket s)) cmd]\<rparr>"

text \<open>The four places of \<open>processLine\<close> that end the session with an error.\<close>

definition fail :: "string \<Rightarrow> pop3_state \<Rightarrow> pop3_state" where
  "fail msg s = resolve (Failed msg) (cleanup (clearTimeout (s\<lparr>resolved := True\<rparr>)))"

text \<open>\<open>upgradeToTLS\<close> up to the handshake: the listeners are removed, \<open>socket\<close> becomes
  the new TLS socket. The callback of \<open>tls.connect\<close> is \<open>tlsSecure\<close>.\<close>

definition upgradeToTLS :: "pop3_state \<Rightarrow> pop3_state" where
  "upgradeToTLS s =
     s\<lparr>listening := False, handshakes := Suc (handshakes s), socket := UpgradedSocket,
       destroyed := False\<rparr>"

definition tlsSecure :: "POP3EmailConfig \<Rightarrow> pop3_state \<Rightarrow> pop3_state" where
  "tlsSecure config s =
     sendCmd (''USER '' @ username config)
       (s\<lparr>handshakes := handshakes s - 1, socket := UpgradedSocket, listening := True,
          currentStep := StepUser\<rparr>)"

text \<open>\<open>emailList.slice(-10)\<close>\<close>

definition slice10 :: "'a list \<Rightarrow> 'a list" where
  "slice10 xs = drop (length xs - 10) xs"

text \<open>\<open>line.match(/^(\d+)\s+(\d+)$/)\<close>, as the entry it stands for.\<close>

definition rx_list_line :: "rx list" where
  "rx_list_line =
     [Bol, Open 1, Rep 1 is_digit, Close 1, Rep 1 is_ws, Open 2, Rep 1 is_digit, Close 2, Eol]"

definition list_line :: "string \<Rightarrow> list_entry option" where
  "list_line line =
     (case rx_search no_flags rx_list_line [] line of
        None \<Rightarrow> None
      | Some (i, n, cs) \<Rightarrow> Some \<lparr>msg_num = parseInt (cap cs 1), msg_size = parseInt (cap cs 2)\<rparr>)"

text \<open>\<open>`RETR ${entry.num}`\<close>\<close>

definition retr_cmd :: "node_env \<Rightarrow> list_entry \<Rightarrow> string" where
  "retr_cmd env e = ''RETR '' @ number_text env (msg_num e)"

text \<open>A data line of a message: \<open>line.startsWith('..') ? line.substring(1) : line\<close>.\<close>

definition unstuff :: "string \<Rightarrow> string" where
  "unstuff line = (if startsWith line ''..'' then drop 1 line else line)"

definition processLine :: "POP3EmailConfig \<Rightarrow> node_env \<Rightarrow> string \<Rightarrow> pop3_state \<Rightarrow> pop3_state" where
  "processLine config env line s0 =
     (let s = s0\<lparr>trace := trace s0 @ [Line line]\<rparr> in
      case currentStep s of
        StepGreeting \<Rightarrow>
          if startsWith line ''+OK'' then
            (if encryption config = TLS then sendCmd ''STLS'' (s\<lparr>currentStep := StepStls\<rparr>)
             else sendCmd (''USER '' @ username config) (s\<lparr>currentStep := StepUser\<rparr>))
          else fail (''Server greeting failed: '' @ line) s
      | StepStls \<Rightarrow>
          if startsWith line ''+OK'' then upgradeToTLS (s\<lparr>startTLSUpgradePending := True\<rparr>)
          else sendCmd (''USER '' @ username config) (s\<lparr>currentStep := StepUser\<rparr>)
      | StepUser \<Rightarrow>
          if startsWith line ''+OK'' then
            sendCmd (''PASS '' @ password config) (s\<lparr>currentStep := StepPass\<rparr>)
          else fail (''Username rejected: '' @ line) s
      | StepPass \<Rightarrow>
          if startsWith line ''+OK'' then sendCmd ''LIST'' (s\<lparr>currentStep := StepList\<rparr>)
          else fail (''Authentication failed: '' @ line @ ''. Check username and password.'') s
      | StepList \<Rightarrow>
          if line = ''.'' then
            (if emailList s = [] then
               (sendCmd ''QUIT'' (clearTimeout (s\<lparr>resolved := True\<rparr>)))
                 \<lparr>timers := timers s @ [ResolveEmpty]\<rparr>
             else
               sendCmd (retr_cmd env (slice10 (emailList s) ! 0))
                 (s\<lparr>currentStep := StepRetr, currentEmailIndex := 0, currentEmailData := []\<rparr>))
          else if startsWith line ''-ERR'' then fail (''LIST failed: '' @ line) s
          else (case list_line line of
                  Some e \<Rightarrow> s\<lparr>emailList := emailList s @ [e]\<rparr>
                | None \<Rightarrow> s)
      | StepRetr \<Rightarrow>
          if line = ''.'' then
            (let s1 = (case parseEmailFromRaw env (length (emails s)) (currentEmailData s) of
                         Some email \<Rightarrow>
                           s\<lparr>emails := emails s @ [email], trace := trace s @ [Parsed email]\<rparr>
                       | None \<Rightarrow> s);
                 toFetch = slice10 (emailList s1);
                 s2 = s1\<lparr>currentEmailIndex := currentEmailIndex s1 + 1\<rparr>
             in if currentEmailIndex s2 < length toFetch then
                  sendCmd (retr_cmd env (toFetch ! currentEmailIndex s2)) (s2\<lparr>currentEmailData := []\<rparr>)
                else (sendCmd ''QUIT'' s2)\<lparr>timers := timers s2 @ [ResolveDone]\<rparr>)
          else s\<lparr>currentEmailData := currentEmailData s @ unstuff line @ CRLF\<rparr>)"

text \<open>The loop of \<open>processResponse\<close>: while the buffer holds a complete line, take it off
  the buffer and process it; stop once the session is resolved.\<close>

function process_lines :: "POP3EmailConfig \<Rightarrow> node_env \<Rightarrow> pop3_state \<Rightarrow> pop3_state" where
  "process_lines config env s =
     (case indexOf (dataBuffer s) CRLF of
        None \<Rightarrow> s
      | Some lineEnd \<Rightarrow>
          (let s1 = processLine config env (take lineEnd (dataBuffer s))
                      (s\<lparr>dataBuffer := drop (lineEnd + 2) (dataBuffer s)\<rparr>)
           in if resolved s1 then s1 else process_lines config env s1))"
  by pat_completeness auto

definition processResponse :: "POP3EmailConfig \<Rightarrow> node_env \<Rightarrow> string \<Rightarrow> pop3_state \<Rightarrow> pop3_state" where
  "processResponse config env response s =
     process_lines config env (s\<lparr>dataBuffer := dataBuffer s @ response\<rparr>)"

definition handleError :: "POP3EmailConfig \<Rightarrow> string \<Rightarrow> pop3_state \<Rightarrow> pop3_state" where
  "handleError config msg s =
     (if resolved s then s
      else resolve
             (Failed
               (if str_includes msg ''ETIMEDOUT'' \<or> str_includes msg ''ECONNREFUSED'' then
                  ''Cannot connect to '' @ host config @ '':'' @ show_nat (port config) @
                  ''. Check server address and port.''
                else if str_includes msg ''EPROTO'' \<or> str_includes msg ''wrong version number'' then
                  ''SSL/TLS mismatch. Try changing encryption setting. '' @
                  ''SSL = implicit TLS, TLS = StartTLS, None = plain text.''
                else msg))
             (cleanup (clearTimeout (s\<lparr>resolved := True\<rparr>))))"

text \<open>The callback of the 25-second timer, and the error it resolves with.\<close>

definition timeout_message :: "POP3EmailConfig \<Rightarrow> string" where
  "timeout_message config =
     ''Connection timeout after 25 seconds. Check if '' @ host config @ '':'' @
     show_nat (port config) @ '' is correct and accessible.''"

definition fetchTimeout :: "POP3EmailConfig \<Rightarrow> pop3_state \<Rightarrow> pop3_state" where
  "fetchTimeout config s =
     (if resolved s then s
      else resolve (Failed (timeout_message config)) (cleanup (s\<lparr>resolved := True\<rparr>)))"

text \<open>The \<open>close\<close> listener (of the first socket and of the upgraded one alike).\<close>

definition onClose :: "pop3_state \<Rightarrow> pop3_state" where
  "onClose s =
     (if resolved s then s
      else resolve (Fetched (emails s)) (clearTimeout (s\<lparr>resolved := True\<rparr>)))"

definition run_deferred :: "deferred \<Rightarrow> pop3_state \<Rightarrow> pop3_state" where
  "run_deferred d s =
     (case d of
        ResolveEmpty \<Rightarrow> resolve (Fetched []) (cleanup s)
      | ResolveDone \<Rightarrow> resolve (Fetched (emails s)) (cleanup (clearTimeout (s\<lparr>resolved := True\<rparr>))))"

text \<open>
  What can happen to a session: a chunk of data arrives on the current socket, the TLS
  handshake of an upgrade completes, the socket closes, the socket reports an error or its
  idle timeout, the 25-second timer fires, the pending \<open>setTimeout\<close> callback number \<open>i\<close>
  fires. \<open>on_event\<close> is the listener for each, guarded as the source guards it: data is
  processed while the \<open>data\<close> listener is attached and the session is not resolved; a
  handshake completes only when one is under way; the 25-second timer fires once, unless
  cleared.
\<close>

datatype event = Data string | TlsSecure | Closed | SocketError string | IdleTimeout
  | FetchTimeout | TimerFired nat

definition on_event :: "POP3EmailConfig \<Rightarrow> node_env \<Rightarrow> pop3_state \<Rightarrow> event \<Rightarrow> pop3_state" where
  "on_event config env s ev =
     (case ev of
        Data d \<Rightarrow> if listening s \<and> \<not> resolved s then processResponse config env d s else s
      | TlsSecure \<Rightarrow> if 0 < handshakes s then tlsSecure config s else s
      | Closed \<Rightarrow> if listening s then onClose (s\<lparr>destroyed := True\<rparr>) else s\<lparr>destroyed := True\<rparr>
      | SocketError msg \<Rightarrow> handleError config msg s
      | IdleTimeout \<Rightarrow> handleError config ''Socket timeout'' s
      | FetchTimeout \<Rightarrow>
          if timeoutCleared s then s else fetchTimeout config (s\<lparr>timeoutCleared := True\<rparr>)
      | TimerFired i \<Rightarrow>
          if i < length (timers s)
          then run_deferred (timers s ! i) (s\<lparr>timers := take i (timers s) @ drop (Suc i) (timers s)\<rparr>)
          else s)"

text \<open>A session of \<open>fetchPOP3Emails\<close> on a sequence of events.\<close>

definition run :: "POP3EmailConfig \<Rightarrow> node_env \<Rightarrow> event list \<Rightarrow> pop3_state" where
  "run config env evs = foldl (on_event config env) (init config) evs"

text \<open>The lines of a list, fed to \<open>processLine\<close> one after the other until the session is
  resolved, as the loop of \<open>processResponse\<close> feeds them.\<close>

fun feed :: "POP3EmailConfig \<Rightarrow> node_env \<Rightarrow> string list \<Rightarrow> pop3_state \<Rightarrow> pop3_state" where
  "feed config env [] s = s"
| "feed config env (l # ls) s =
     (let s1 = processLine config env l s in if resolved s1 then s1 else feed config env ls s1)"

text \<open>The bytes of a list of lines on the wire: each followed by CRLF.\<close>

definition wire :: "string list \<Rightarrow> string" where
  "wire ls = concat (map (\<lambda>l. l @ CRLF) ls)"

section \<open>A test double\<close>

text \<open>A platform and a mailbox configuration for the concrete runs below. The platform
  decodes the base64 text \<open>SGVsbG8=\<close> to \<open>Hello\<close>, converts one RFC 2822 date to
  ISO-8601 and rejects every other date, as \<open>new Date('not a date')\<close> is rejected, and
  prints the number read from the digits \<open>9007199254740993\<close> as Node does.\<close>

definition mock_env :: node_env where
  "mock_env =
     \<lparr>base64_utf8 = (\<lambda>s. if s = ''SGVsbG8='' then ''Hello'' else []),
      base64_latin1 = (\<lambda>s. if s = ''SGVsbG8='' then ''Hello'' else []),
      date_to_iso = (\<lambda>s. if s = ''Mon, 1 Jan 2024 10:00:00 +0000''
                           then Some ''2024-01-01T10:00:00.000Z'' else None),
      now_iso = (\<lambda>k. ''2026-01-01T00:00:00.000Z''),
      new_email_id = (\<lambda>k. ''email_'' @ show_nat k),
      double_text = (\<lambda>n. if int n = 9007199254740993 then ''9007199254740992'' else ''Infinity'')\<rparr>"

definition mock_config :: "encryption \<Rightarrow> POP3EmailConfig" where
  "mock_config enc =
     \<lparr>host = ''mail.example.org'', port = 110, username = ''alice'', password = ''secret'',
      encryption = enc\<rparr>"

text \<open>A session up to the first \<open>RETR\<close>: greeting, \<open>USER\<close> and \<open>PASS\<close> accepted, a
  list of one message.\<close>

definition retr_session :: "event list" where
  "retr_session =
     [Data (wire [''+OK POP3 ready'']), Data (wire [''+OK'', ''+OK logged in'']),
      Data (wire [''+OK 1 message'', ''1 120'', ''.''])]"

text \<open>A session up to \<open>LIST\<close>.\<close>

definition list_session :: "event list" where
  "list_session = [Data (wire [''+OK POP3 ready'']), Data (wire [''+OK'', ''+OK logged in''])]"

text \<open>A STARTTLS session up to \<open>STLS\<close>.\<close>

definition stls_session :: "event list" where
  "stls_session = [Data (wire [''+OK POP3 ready''])]"

section \<open>Notions of the statements\<close>

text \<open>An unresolved session has resolved its promise with nothing, and the callback that
  resolves it after an empty list is not pending.\<close>

definition pending_ok :: "pop3_state \<Rightarrow> bool" where
  "pending_ok s = (\<not> resolved s \<longrightarrow> result s = None \<and> ResolveEmpty \<notin> set (timers s))"

text \<open>The commands of a stretch of the trace were written to the upgraded socket (or, the
  socket being destroyed, to none).\<close>

definition via_upgraded :: "action list \<Rightarrow> bool" where
  "via_upgraded tr = (\<forall>h cmd. Sent h cmd \<in> set tr \<longrightarrow> h = None \<or> h = Some UpgradedSocket)"

definition upgraded_since :: "action list \<Rightarrow> pop3_state \<Rightarrow> bool" where
  "upgraded_since t0 s =
     (socket s = UpgradedSocket \<and> (\<exists>tr. trace s = t0 @ tr \<and> via_upgraded tr))"

text \<open>
  A trace is sequential when every \<open>PASS\<close> in it comes right after a consumed line that
  begins with \<open>+OK\<close>, itself right after a sent \<open>USER\<close>; every \<open>LIST\<close> right after a
  consumed \<open>+OK\<close> line, itself right after a sent \<open>PASS\<close>; every \<open>RETR\<close> after a sent
  \<open>PASS\<close> and the \<open>+OK\<close> line consumed right after it, and right after a consumed
  terminator \<open>.\<close> (and the record decoded on it, if any); every \<open>QUIT\<close> right after a
  consumed terminator likewise; every \<open>STLS\<close> right after a consumed line that begins
  with \<open>+OK\<close>; and every \<open>USER\<close> right after a consumed line or, as the callback of the
  TLS handshake sends it, somewhere after a sent \<open>STLS\<close> and the \<open>+OK\<close> line consumed right
  after it.
\<close>

definition last_sent :: "string \<Rightarrow> action list \<Rightarrow> bool" where
  "last_sent p tr =
     (tr \<noteq> [] \<and> (case last tr of Sent h cmd \<Rightarrow> startsWith cmd p | _ \<Rightarrow> False))"

definition ends_with_reply :: "string \<Rightarrow> action list \<Rightarrow> bool" where
  "ends_with_reply p tr =
     (\<exists>t h cmd l. tr = t @ [Sent h cmd, Line l] \<and> startsWith cmd p \<and> startsWith l ''+OK'')"

definition has_reply :: "string \<Rightarrow> action list \<Rightarrow> bool" where
  "has_reply p tr =
     (\<exists>a h cmd l b. tr = a @ Sent h cmd # Line l # b \<and> startsWith cmd p \<and> startsWith l ''+OK'')"

definition after_line :: "(string \<Rightarrow> bool) \<Rightarrow> action list \<Rightarrow> bool" where
  "after_line P pre =
     (\<exists>t l. P l \<and> (pre = t @ [Line l] \<or> (\<exists>e. pre = t @ [Line l, Parsed e])))"

definition may_follow :: "action list \<Rightarrow> action \<Rightarrow> bool" where
  "may_follow pre a =
     (\<forall>h cmd. a = Sent h cmd \<longrightarrow>
        (startsWith cmd ''PASS '' \<longrightarrow> ends_with_reply ''USER '' pre)
      \<and> (cmd = ''LIST'' \<longrightarrow> ends_with_reply ''PASS '' pre)
      \<and> (startsWith cmd ''RETR '' \<longrightarrow>
            has_reply ''PASS '' pre \<and> after_line (\<lambda>l. l = ''.'') pre)
      \<and> (cmd = ''QUIT'' \<longrightarrow> after_line (\<lambda>l. l = ''.'') pre)
      \<and> (cmd = ''STLS'' \<longrightarrow> after_line (\<lambda>l. startsWith l ''+OK'') pre)
      \<and> (startsWith cmd ''USER '' \<longrightarrow> after_line (\<lambda>l. True) pre \<or> has_reply ''STLS'' pre))"

definition sequential :: "action list \<Rightarrow> bool" where
  "sequential tr = (\<forall>pre a post. tr = pre @ a # post \<longrightarrow> may_follow pre a)"


text \<open>
  \<open>raw_block b\<close> is the raw block accumulated from the lines \<open>b\<close> of a response.
  \<open>retrieving env h n bodies cmds\<close> is the trace of consuming the responses \<open>bodies\<close>, each
  followed by its terminator: the lines of a response, its terminator, the record decoded
  from it, and only then the next command of \<open>cmds\<close>. \<open>decoded\<close> is the list of those
  records, \<open>commands\<close> the commands of a trace in the order they were sent, and
  \<open>on_socket s\<close> the handle a command is written to in the state \<open>s\<close>.
\<close>

definition raw_block :: "string list \<Rightarrow> string" where
  "raw_block b = concat (map (\<lambda>l. unstuff l @ CRLF) b)"

fun retrieving :: "node_env \<Rightarrow> handle option \<Rightarrow> nat \<Rightarrow> string list list \<Rightarrow> string list \<Rightarrow> action list" where
  "retrieving env h n (b # bs) (c # cs) =
     map Line b @ [Line ''.'', Parsed (message_record env n (raw_block b)), Sent h c]
     @ retrieving env h (Suc n) bs cs"
| "retrieving env h n bs cs = []"

fun decoded :: "node_env \<Rightarrow> nat \<Rightarrow> string list list \<Rightarrow> Email list" where
  "decoded env n [] = []"
| "decoded env n (b # bs) = message_record env n (raw_block b) # decoded env (Suc n) bs"

definition commands :: "action list \<Rightarrow> string list" where
  "commands tr = List.map_filter (\<lambda>a. case a of Sent h cmd \<Rightarrow> Some cmd | _ \<Rightarrow> None) tr"

definition on_socket :: "pop3_state \<Rightarrow> handle option" where
  "on_socket s = (if destroyed s then None else Some (socket s))"

text \<open>The order of two message numbers below \<open>2^53\<close>, and a list whose entries the
  server gives in ascending order of their numbers.\<close>

definition number_less :: "number \<Rightarrow> number \<Rightarrow> bool" where
  "number_less x y = (case (x, y) of (Exact a, Exact b) \<Rightarrow> a < b | _ \<Rightarrow> False)"

definition ascending :: "list_entry list \<Rightarrow> bool" where
  "ascending es = sorted_wrt (\<lambda>a b. number_less (msg_num a) (msg_num b)) es"

text \<open>A list of twelve messages, a list of eleven messages that gives the last one first,
  and the response to a \<open>RETR\<close>.\<close>

definition twelve_lines :: "string list" where
  "twelve_lines = ''+OK 12 messages'' # map (\<lambda>n. show_nat n @ '' 100'') [1 ..< 13]"

definition unordered_lines :: "string list" where
  "unordered_lines =
     ''+OK 11 messages'' # ''11 100'' # map (\<lambda>n. show_nat n @ '' 100'') [1 ..< 11]"

definition one_body :: "string list" where
  "one_body = [''+OK message follows'', ''Subject: hello'', [], ''..Hi'']"

text \<open>
  \<open>has_header headers name\<close>: some line of the header block begins with \<open>name\<close> and a
  colon, in any letter case. A line begins at the start of the block and after a CR or an
  LF. \<open>pre\<close> is the text before the position, reversed.
\<close>

fun field_from :: "string \<Rightarrow> string \<Rightarrow> string \<Rightarrow> bool" where
  "field_from l pre [] = ((pre = [] \<or> is_lt (hd pre)) \<and> lit_rest True l [] \<noteq> None)"
| "field_from l pre (x # xs) =
     (((pre = [] \<or> is_lt (hd pre)) \<and> lit_rest True l (x # xs) \<noteq> None) \<or> field_from l (x # pre) xs)"

definition has_header :: "string \<Rightarrow> string \<Rightarrow> bool" where
  "has_header headers name = field_from (name @ '':'') [] headers"









section \<open>The loop over the lines ends\<close>

text \<open>\<open>processLine\<close> leaves the buffer alone, and a line taken from the buffer shortens
  it: the loop of \<open>processResponse\<close> ends.\<close>

lemma dataBuffer_processLine [simp]:
  "dataBuffer (processLine config env line s) = dataBuffer s"
  unfolding processLine_def Let_def
  by (cases "currentStep s") (simp_all add: sendCmd_def fail_def resolve_def cleanup_def
      clearTimeout_def upgradeToTLS_def split: option.split)

lemma startsWith_length:
  "startsWith s p \<Longrightarrow> length p \<le> length s"
proof -
  assume "startsWith s p"
  then have "length (take (length p) s) = length p"
    by (simp only: startsWith_def)
  then show ?thesis by simp
qed

lemma indexOf_from_bound:
  "indexOf_from i s p = Some j \<Longrightarrow> j + length p \<le> i + length s"
proof (induction s arbitrary: i)
  case Nil
  then show ?case by (simp split: if_splits)
next
  case (Cons x xs)
  show ?case
  proof (cases "startsWith (x # xs) p")
    case True
    from startsWith_length [OF True] True Cons.prems show ?thesis by simp
  next
    case False
    with Cons.prems have "indexOf_from (Suc i) xs p = Some j" by simp
    from Cons.IH [OF this] show ?thesis by simp
  qed
qed

lemma indexOf_CRLF_bound:
  "indexOf s CRLF = Some j \<Longrightarrow> j + 2 \<le> length s"
  using indexOf_from_bound [of 0 s CRLF j] by (simp add: indexOf_def CRLF_def)

termination process_lines
proof (relation "measure (\<lambda>(config, env, s). length (dataBuffer s))")
  show "wf (measure (\<lambda>(config, env, s). length (dataBuffer s)))"
    by simp
next
  fix config :: POP3EmailConfig and env :: node_env and s :: pop3_state and lineEnd s1
  assume found: "indexOf (dataBuffer s) CRLF = Some lineEnd"
    and s1: "s1 = processLine config env (take lineEnd (dataBuffer s))
                    (s\<lparr>dataBuffer := drop (lineEnd + 2) (dataBuffer s)\<rparr>)"
  from indexOf_CRLF_bound [OF found] s1
  show "((config, env, s1), (config, env, s)) \<in> measure (\<lambda>(config, env, s). length (dataBuffer s))"
    by simp
qed

declare process_lines.simps [simp del]

section \<open>Lines and chunks\<close>

text \<open>\<open>processLine\<close> neither reads nor writes the buffer, and the first CRLF of a line
  followed by CRLF is at the end of the line. So the loop of \<open>processResponse\<close>, on a
  buffer that holds the lines \<open>ls\<close> and an incomplete rest, is \<open>feed\<close> on \<open>ls\<close>.\<close>

lemma processLine_dataBuffer_update:
  "processLine config env line (s\<lparr>dataBuffer := b\<rparr>)
     = (processLine config env line s)\<lparr>dataBuffer := b\<rparr>"
  unfolding processLine_def Let_def
  by (cases "currentStep s") (simp_all add: sendCmd_def fail_def resolve_def cleanup_def
      clearTimeout_def upgradeToTLS_def split: option.split)

lemma indexOf_from_None_iff:
  "(indexOf_from i s p = None) = (indexOf_from 0 s p = None)"
proof (induction s arbitrary: i)
  case Nil
  show ?case by simp
next
  case (Cons x xs)
  from Cons.IH [of "Suc i"] Cons.IH [of "Suc 0"] show ?case by simp
qed

lemma indexOf_from_line:
  "indexOf_from 0 l CRLF = None \<Longrightarrow> indexOf_from i (l @ CRLF @ r) CRLF = Some (i + length l)"
proof (induction l arbitrary: i)
  case Nil
  then show ?case by (simp add: startsWith_def CRLF_def)
next
  case (Cons x xs)
  from Cons.prems have ns: "\<not> startsWith (x # xs) CRLF"
    by (auto split: if_splits)
  from Cons.prems ns have "indexOf_from (Suc 0) xs CRLF = None"
    by simp
  then have nxt: "indexOf_from 0 xs CRLF = None"
    using indexOf_from_None_iff [of "Suc 0" xs CRLF] by simp
  have "\<not> startsWith ((x # xs) @ CRLF @ r) CRLF"
    using ns by (cases xs) (auto simp: startsWith_def CRLF_def CR_def LF_def)
  with Cons.IH [OF nxt, of "Suc i"] show ?case by simp
qed

lemma indexOf_line:
  "indexOf l CRLF = None \<Longrightarrow> indexOf (l @ CRLF @ r) CRLF = Some (length l)"
  using indexOf_from_line [of l 0 r] by (simp add: indexOf_def)

lemma process_lines_feed:
  assumes "\<forall>l \<in> set ls. indexOf l CRLF = None" and "indexOf rest CRLF = None"
  shows "\<exists>b. process_lines config env (s\<lparr>dataBuffer := wire ls @ rest\<rparr>)
             = (feed config env ls s)\<lparr>dataBuffer := b\<rparr>"
  using assms
proof (induction ls arbitrary: s)
  case Nil
  then show ?case
    by (subst process_lines.simps) (auto simp: wire_def)
next
  case (Cons l ls)
  let ?s1 = "processLine config env l s"
  from Cons.prems have nl: "indexOf l CRLF = None" by simp
  have buf: "wire (l # ls) @ rest = l @ CRLF @ (wire ls @ rest)"
    by (simp add: wire_def)
  define B where "B = wire (l # ls) @ rest"
  have idx: "indexOf B CRLF = Some (length l)"
    by (simp only: B_def buf indexOf_line [OF nl])
  have dr: "drop (Suc (Suc (length l))) B = wire ls @ rest"
    by (simp add: B_def buf CRLF_def)
  have tk: "take (length l) B = l"
    by (simp add: B_def buf)
  have "process_lines config env (s\<lparr>dataBuffer := B\<rparr>)
        = (let s1 = ?s1\<lparr>dataBuffer := wire ls @ rest\<rparr>
           in if resolved s1 then s1 else process_lines config env s1)"
    by (subst process_lines.simps)
       (simp add: idx dr tk processLine_dataBuffer_update)
  then have step: "process_lines config env (s\<lparr>dataBuffer := wire (l # ls) @ rest\<rparr>)
        = (let s1 = ?s1\<lparr>dataBuffer := wire ls @ rest\<rparr>
           in if resolved s1 then s1 else process_lines config env s1)"
    by (simp only: B_def)
  show ?case
  proof (cases "resolved ?s1")
    case True
    with step show ?thesis by (auto simp: Let_def)
  next
    case False
    from Cons.IH [of ?s1] Cons.prems obtain b where
      "process_lines config env (?s1\<lparr>dataBuffer := wire ls @ rest\<rparr>)
         = (feed config env ls ?s1)\<lparr>dataBuffer := b\<rparr>"
      by auto
    with step False show ?thesis by (auto simp: Let_def)
  qed
qed

section \<open>Retrieval: the lines of a message\<close>

lemma processLine_retr_data:
  "currentStep s = StepRetr \<Longrightarrow> line \<noteq> ''.'' \<Longrightarrow>
   processLine config env line s =
     s\<lparr>trace := trace s @ [Line line],
       currentEmailData := currentEmailData s @ unstuff line @ CRLF\<rparr>"
  by (simp add: processLine_def)

text \<open>
  C10. While a message is retrieved (\<open>currentStep = StepRetr\<close>), every line other than the
  terminator \<open>.\<close> is appended, dot-unstuffed and followed by CRLF, to the raw block, and
  nothing else happens: nothing is sent, the step stays, the session is not resolved. That
  holds for a line that begins with \<open>-ERR\<close> as for any other, so a refused \<open>RETR\<close> does
  not end the session as an error: the session goes on accumulating, and it is the
  25-second timer that ends it, with the timeout error.
\<close>

theorem retr_lines_are_body_data:
  assumes "currentStep s = StepRetr" and "\<not> resolved s" and "result s = None"
    and "\<not> timeoutCleared s" and "\<forall>l \<in> set ls. l \<noteq> ''.''"
  shows "currentStep (feed config env ls s) = StepRetr
       \<and> \<not> resolved (feed config env ls s)
       \<and> result (feed config env ls s) = None
       \<and> currentEmailData (feed config env ls s)
           = currentEmailData s @ concat (map (\<lambda>l. unstuff l @ CRLF) ls)
       \<and> trace (feed config env ls s) = trace s @ map Line ls
       \<and> result (on_event config env (feed config env ls s) FetchTimeout)
           = Some (Failed (timeout_message config))"
  using assms
proof (induction ls arbitrary: s)
  case Nil
  then show ?case
    by (simp add: on_event_def fetchTimeout_def resolve_def cleanup_def)
next
  case (Cons l ls)
  let ?s1 = "processLine config env l s"
  from Cons.prems have l: "l \<noteq> ''.''" by simp
  have s1: "?s1 = s\<lparr>trace := trace s @ [Line l],
                      currentEmailData := currentEmailData s @ unstuff l @ CRLF\<rparr>"
    using Cons.prems(1) l by (rule processLine_retr_data)
  have "currentStep ?s1 = StepRetr" "\<not> resolved ?s1" "result ?s1 = None" "\<not> timeoutCleared ?s1"
    using Cons.prems by (simp_all add: s1)
  from Cons.IH [OF this] Cons.prems(5) have IH:
    "currentStep (feed config env ls ?s1) = StepRetr
       \<and> \<not> resolved (feed config env ls ?s1)
       \<and> result (feed config env ls ?s1) = None
       \<and> currentEmailData (feed config env ls ?s1)
           = currentEmailData ?s1 @ concat (map (\<lambda>l. unstuff l @ CRLF) ls)
       \<and> trace (feed config env ls ?s1) = trace ?s1 @ map Line ls
       \<and> result (on_event config env (feed config env ls ?s1) FetchTimeout)
           = Some (Failed (timeout_message config))"
    by simp
  have fd: "feed config env (l # ls) s = feed config env ls ?s1"
    using \<open>\<not> resolved ?s1\<close> by (simp add: Let_def)
  show ?case
    unfolding fd using IH by (simp add: s1)
qed

theorem retr_lines_are_body_data_witness:
  "currentStep (run (mock_config NONE) mock_env retr_session) = StepRetr
   \<and> \<not> resolved (run (mock_config NONE) mock_env retr_session)
   \<and> currentEmailData (feed (mock_config NONE) mock_env [''-ERR no such message'', ''..x'']
        (run (mock_config NONE) mock_env retr_session))
       = ''-ERR no such message'' @ CRLF @ ''.x'' @ CRLF
   \<and> result (on_event (mock_config NONE) mock_env
        (feed (mock_config NONE) mock_env [''-ERR no such message'', ''..x'']
          (run (mock_config NONE) mock_env retr_session)) FetchTimeout)
       = Some (Failed (''Connection timeout after 25 seconds. '' @
                       ''Check if mail.example.org:110 is correct and accessible.''))"
proof -
  let ?s = "run (mock_config NONE) mock_env retr_session"
  have h: "currentStep ?s = StepRetr" "\<not> resolved ?s" "result ?s = None" "\<not> timeoutCleared ?s"
       "currentEmailData ?s = []"
    by code_simp+
  have l: "\<forall>l \<in> set [''-ERR no such message'', ''..x'']. l \<noteq> ''.''"
    by simp
  have m: "timeout_message (mock_config NONE)
             = ''Connection timeout after 25 seconds. '' @
               ''Check if mail.example.org:110 is correct and accessible.''"
    by code_simp
  have u: "unstuff ''..x'' = ''.x''" "unstuff ''-ERR no such message'' = ''-ERR no such message''"
    by code_simp+
  from retr_lines_are_body_data [OF h(1-4) l, of "mock_config NONE" mock_env]
  show ?thesis using h by (simp add: m u)
qed

section \<open>Invariants of a session\<close>

text \<open>A property that \<open>processLine\<close> keeps on an unresolved session, that does not depend on
  the buffer and that every other listener keeps, holds throughout a session.\<close>

lemma process_lines_invariant:
  assumes "\<And>line s. I s \<Longrightarrow> \<not> resolved s \<Longrightarrow> I (processLine config env line s)"
    and "\<And>s b. I (s\<lparr>dataBuffer := b\<rparr>) = I s"
    and "I s" and "\<not> resolved s"
  shows "I (process_lines config env s)"
  using assms
proof (induction config env s rule: process_lines.induct)
  case (1 config env s)
  note step = "1.prems"(1) and buf = "1.prems"(2)
  show ?case
  proof (cases "indexOf (dataBuffer s) CRLF")
    case None
    with "1.prems" show ?thesis
      by (subst process_lines.simps) simp
  next
    case (Some lineEnd)
    let ?s0 = "s\<lparr>dataBuffer := drop (lineEnd + 2) (dataBuffer s)\<rparr>"
    let ?s1 = "processLine config env (take lineEnd (dataBuffer s)) ?s0"
    have "I ?s0" "\<not> resolved ?s0"
      using "1.prems"(3,4) by (simp_all add: buf)
    then have I1: "I ?s1" by (rule step)
    show ?thesis
    proof (cases "resolved ?s1")
      case True
      with Some I1 show ?thesis
        by (subst process_lines.simps) (simp add: Let_def)
    next
      case False
      from "1.IH" [OF Some refl False step buf I1 False] Some False show ?thesis
        by (subst process_lines.simps) (simp add: Let_def)
    qed
  qed
qed

lemma events_invariant:
  assumes line: "\<And>line s. I s \<Longrightarrow> \<not> resolved s \<Longrightarrow> I (processLine config env line s)"
    and buf: "\<And>s b. I (s\<lparr>dataBuffer := b\<rparr>) = I s"
    and other: "\<And>s ev. I s \<Longrightarrow> (\<forall>d. ev \<noteq> Data d) \<Longrightarrow> I (on_event config env s ev)"
    and start: "I s"
  shows "I (foldl (on_event config env) s evs)"
  using start
proof (induction evs arbitrary: s)
  case Nil
  then show ?case by simp
next
  case (Cons ev evs)
  have "I (on_event config env s ev)"
  proof (cases ev)
    case (Data d)
    show ?thesis
    proof (cases "listening s \<and> \<not> resolved s")
      case True
      have "I (process_lines config env (s\<lparr>dataBuffer := dataBuffer s @ d\<rparr>))"
        using line buf
      proof (rule process_lines_invariant)
        show "I (s\<lparr>dataBuffer := dataBuffer s @ d\<rparr>)" using Cons.prems by (simp add: buf)
        show "\<not> resolved (s\<lparr>dataBuffer := dataBuffer s @ d\<rparr>)" using True by simp
      qed
      with True Data show ?thesis by (simp add: on_event_def processResponse_def)
    next
      case False
      with Data Cons.prems show ?thesis by (auto simp: on_event_def)
    qed
  next
    case TlsSecure
    with other [OF Cons.prems, of ev] show ?thesis by simp
  next
    case Closed
    with other [OF Cons.prems, of ev] show ?thesis by simp
  next
    case (SocketError m)
    with other [OF Cons.prems, of ev] show ?thesis by simp
  next
    case IdleTimeout
    with other [OF Cons.prems, of ev] show ?thesis by simp
  next
    case FetchTimeout
    with other [OF Cons.prems, of ev] show ?thesis by simp
  next
    case (TimerFired i)
    with other [OF Cons.prems, of ev] show ?thesis by simp
  qed
  from Cons.IH [OF this] show ?case by simp
qed

lemma pending_ok_line:
  "pending_ok s \<Longrightarrow> \<not> resolved s \<Longrightarrow> pending_ok (processLine config env line s)"
  unfolding processLine_def Let_def pending_ok_def
  by (cases "currentStep s") (simp_all add: sendCmd_def fail_def resolve_def cleanup_def
      clearTimeout_def upgradeToTLS_def split: option.split)

lemma set_remove_nth:
  "x \<in> set (take i xs @ drop (Suc i) xs) \<Longrightarrow> x \<in> set xs"
  by (auto dest: in_set_takeD in_set_dropD)

lemma pending_ok_other:
  "pending_ok s \<Longrightarrow> (\<forall>d. ev \<noteq> Data d) \<Longrightarrow> pending_ok (on_event config env s ev)"
proof (cases ev)
  case (TimerFired i)
  assume ok: "pending_ok s"
  show ?thesis
  proof (cases "i < length (timers s)")
    case True
    have "timers s ! i \<in> set (timers s)" using True by simp
    with ok True TimerFired show ?thesis
      by (cases "timers s ! i")
         (auto simp: pending_ok_def on_event_def run_deferred_def resolve_def cleanup_def
            clearTimeout_def dest: set_remove_nth)
  next
    case False
    with ok TimerFired show ?thesis by (simp add: on_event_def)
  qed
qed (auto simp: pending_ok_def on_event_def tlsSecure_def sendCmd_def onClose_def handleError_def
      fetchTimeout_def resolve_def cleanup_def clearTimeout_def)

lemma unresolved_has_no_result:
  "\<not> resolved (run config env evs) \<Longrightarrow> result (run config env evs) = None"
proof -
  have "pending_ok (foldl (on_event config env) (init config) evs)"
    by (rule events_invariant [where I = pending_ok])
       (simp_all add: pending_ok_line pending_ok_other, simp_all add: pending_ok_def init_def)
  then show "\<not> resolved (run config env evs) \<Longrightarrow> result (run config env evs) = None"
    by (simp add: run_def pending_ok_def)
qed

section \<open>A stream that closes early\<close>

text \<open>
  C7 (as amended). When the stream closes while the \<open>close\<close> listener is attached and the
  session is not yet resolved, in whatever step, the session resolves with \<open>success: true\<close>
  and the messages decoded so far (none, when it closes before the first message is
  complete). A close is not reported as an error.
\<close>

theorem close_resolves_with_success:
  assumes "listening (run config env evs)" and "\<not> resolved (run config env evs)"
  shows "result (run config env (evs @ [Closed])) = Some (Fetched (emails (run config env evs)))
       \<and> resolved (run config env (evs @ [Closed]))"
proof -
  from assms(2) have "result (run config env evs) = None"
    by (rule unresolved_has_no_result)
  with assms show ?thesis
    by (simp add: run_def on_event_def onClose_def resolve_def clearTimeout_def)
qed

theorem close_resolves_with_success_witness:
  "listening (run (mock_config NONE) mock_env retr_session)
   \<and> \<not> resolved (run (mock_config NONE) mock_env retr_session)
   \<and> result (run (mock_config NONE) mock_env (retr_session @ [Closed])) = Some (Fetched [])"
proof -
  let ?s = "run (mock_config NONE) mock_env retr_session"
  have h: "listening ?s" "\<not> resolved ?s" "emails ?s = []"
    by code_simp+
  from close_resolves_with_success [OF h(1,2)] h show ?thesis by simp
qed

text \<open>C7 as stated fails: the stream closes while the reply to \<open>USER\<close> is awaited, and
  the session resolves with \<open>success: true\<close> and no message.\<close>

theorem premature_close_counterexample:
  "currentStep (run (mock_config NONE) mock_env [Data (wire [''+OK POP3 ready''])]) = StepUser
   \<and> \<not> resolved (run (mock_config NONE) mock_env [Data (wire [''+OK POP3 ready''])])
   \<and> result (run (mock_config NONE) mock_env [Data (wire [''+OK POP3 ready'']), Closed])
       = Some (Fetched [])"
  by code_simp

section \<open>Retrieval: the terminator and the stuffed lines\<close>

lemma processLine_retr_end:
  "currentStep s = StepRetr \<Longrightarrow>
   currentEmailData (processLine config env ''.'' s) = []
   \<or> currentEmailData (processLine config env ''.'' s) = currentEmailData s"
  by (simp add: processLine_def Let_def sendCmd_def parseEmailFromRaw_def)

lemma unstuff_dot:
  "(unstuff line = ''.'') = (line = ''..'' \<or> line = ''.'')"
proof (cases "startsWith line ''..''")
  case True
  then obtain r where "line = ''..'' @ r"
    by (metis append_take_drop_id startsWith_def)
  then show ?thesis by (auto simp: unstuff_def startsWith_def)
next
  case False
  then show ?thesis by (auto simp: unstuff_def startsWith_def)
qed

text \<open>
  C2 (as amended). While a message is retrieved, a line that begins with two dots is appended
  to the raw block without its first dot (\<open>..Example\<close> contributes \<open>.Example\<close>), every
  line other than \<open>.\<close> is appended unstuffed, and the line \<open>.\<close> itself is never
  appended: it ends the accumulation, after which the block is as it was or empty. A line
  \<open>.\<close> of the block is always the unstuffed form of a received line \<open>..\<close>.
\<close>

theorem dot_unstuffing:
  assumes "currentStep s = StepRetr"
  shows "unstuff (''..'' @ rest) = ''.'' @ rest
       \<and> (line \<noteq> ''.'' \<longrightarrow>
            currentEmailData (processLine config env line s)
              = currentEmailData s @ unstuff line @ CRLF)
       \<and> (line \<noteq> ''.'' \<longrightarrow> (unstuff line = ''.'') = (line = ''..''))
       \<and> (currentEmailData (processLine config env ''.'' s) = []
            \<or> currentEmailData (processLine config env ''.'' s) = currentEmailData s)"
proof -
  have "unstuff (''..'' @ rest) = ''.'' @ rest"
    by (simp add: unstuff_def startsWith_def)
  moreover have "line \<noteq> ''.'' \<longrightarrow>
      currentEmailData (processLine config env line s) = currentEmailData s @ unstuff line @ CRLF"
    using assms by (simp add: processLine_retr_data)
  moreover have "line \<noteq> ''.'' \<longrightarrow> (unstuff line = ''.'') = (line = ''..'')"
    by (simp add: unstuff_dot)
  moreover note processLine_retr_end [OF assms, of config env]
  ultimately show ?thesis by blast
qed

theorem dot_unstuffing_witness:
  "currentStep (run (mock_config NONE) mock_env retr_session) = StepRetr
   \<and> unstuff ''..Example'' = ''.Example''
   \<and> currentEmailData (processLine (mock_config NONE) mock_env ''..Example''
        (run (mock_config NONE) mock_env retr_session)) = ''.Example'' @ CRLF
   \<and> currentEmailData (processLine (mock_config NONE) mock_env ''.''
        (processLine (mock_config NONE) mock_env ''..Example''
          (run (mock_config NONE) mock_env retr_session))) = ''.Example'' @ CRLF"
proof -
  let ?s = "run (mock_config NONE) mock_env retr_session"
  have h: "currentStep ?s = StepRetr" "currentEmailData ?s = []"
    by code_simp+
  have h2: "currentEmailData (processLine (mock_config NONE) mock_env ''.''
        (processLine (mock_config NONE) mock_env ''..Example'' ?s)) = ''.Example'' @ CRLF"
    by code_simp
  from dot_unstuffing [OF h(1), of "''Example''" "''..Example''" "mock_config NONE" mock_env]
  show ?thesis using h h2 by simp
qed

text \<open>C2 as stated fails: the received line \<open>..\<close> is unstuffed to \<open>.\<close>, so the block
  holds a line that is exactly \<open>.\<close>.\<close>

theorem stuffed_dot_line_counterexample:
  "currentEmailData (feed (mock_config NONE) mock_env [''..'']
      (run (mock_config NONE) mock_env retr_session)) = ''.'' @ CRLF
   \<and> split_rx no_flags [Lit CRLF] (''.'' @ CRLF) = [''.'', []]"
  by code_simp

section \<open>Listing\<close>

lemma processLine_list_line:
  "currentStep s = StepList \<Longrightarrow> l \<noteq> ''.'' \<Longrightarrow> \<not> startsWith l ''-ERR'' \<Longrightarrow>
   processLine config env l s =
     s\<lparr>trace := trace s @ [Line l], emailList := emailList s @ List.map_filter list_line [l]\<rparr>"
  by (simp add: processLine_def Let_def List.map_filter_def split: option.split)

lemma feed_list_lines:
  assumes "currentStep s = StepList" and "\<not> resolved s"
    and "\<forall>l \<in> set ls. l \<noteq> ''.'' \<and> \<not> startsWith l ''-ERR''"
  shows "feed config env ls s =
           s\<lparr>trace := trace s @ map Line ls, emailList := emailList s @ List.map_filter list_line ls\<rparr>"
  using assms
proof (induction ls arbitrary: s)
  case Nil
  then show ?case by (simp add: List.map_filter_def)
next
  case (Cons l ls)
  let ?s1 = "s\<lparr>trace := trace s @ [Line l], emailList := emailList s @ List.map_filter list_line [l]\<rparr>"
  have s1: "processLine config env l s = ?s1"
    using Cons.prems by (simp add: processLine_list_line)
  have "feed config env ls ?s1 =
          ?s1\<lparr>trace := trace ?s1 @ map Line ls, emailList := emailList ?s1 @ List.map_filter list_line ls\<rparr>"
    using Cons.prems by (intro Cons.IH) simp_all
  then show ?case
    using Cons.prems(2) by (simp add: s1 Let_def List.map_filter_def)
qed

lemma feed_append:
  "\<not> resolved (feed config env ls s) \<Longrightarrow>
   feed config env (ls @ ms) s = feed config env ms (feed config env ls s)"
  by (induction ls arbitrary: s) (auto simp: Let_def)

lemma resolved_session_keeps_result:
  "resolved s \<Longrightarrow> timers s = [] \<Longrightarrow> result s = Some r \<Longrightarrow>
   result (foldl (on_event config env) s evs) = Some r"
proof (induction evs arbitrary: s)
  case Nil
  then show ?case by simp
next
  case (Cons ev evs)
  have "resolved (on_event config env s ev) \<and> timers (on_event config env s ev) = []
        \<and> result (on_event config env s ev) = Some r"
    using Cons.prems
    by (cases ev) (simp_all add: on_event_def tlsSecure_def sendCmd_def onClose_def
        handleError_def fetchTimeout_def)
  with Cons.IH show ?case by simp
qed

lemma empty_list_pending:
  "resolved s \<Longrightarrow> timers s = [ResolveEmpty] \<Longrightarrow> result s = None \<Longrightarrow>
   result (foldl (on_event config env) s evs)
     = (if TimerFired 0 \<in> set evs then Some (Fetched []) else None)"
proof (induction evs arbitrary: s)
  case Nil
  then show ?case by simp
next
  case (Cons ev evs)
  show ?case
  proof (cases "ev = TimerFired 0")
    case True
    have "resolved (on_event config env s ev) \<and> timers (on_event config env s ev) = []
          \<and> result (on_event config env s ev) = Some (Fetched [])"
      using Cons.prems True
      by (simp add: on_event_def run_deferred_def resolve_def cleanup_def)
    then have "result (foldl (on_event config env) (on_event config env s ev) evs) = Some (Fetched [])"
      by (simp add: resolved_session_keeps_result)
    with True show ?thesis by simp
  next
    case False
    have "resolved (on_event config env s ev) \<and> timers (on_event config env s ev) = [ResolveEmpty]
          \<and> result (on_event config env s ev) = None"
      using Cons.prems False
      by (cases ev) (simp_all add: on_event_def tlsSecure_def sendCmd_def onClose_def
          handleError_def fetchTimeout_def)
    with Cons.IH [of "on_event config env s ev"] False show ?thesis by simp
  qed
qed

text \<open>
  C5. When the response to \<open>LIST\<close> has no entry (no line of it is an entry, and none is an
  error), its terminator resolves the session: \<open>QUIT\<close> is sent, no \<open>RETR\<close> is, and
  whatever happens next the promise is resolved by the pending callback alone, with
  \<open>success: true\<close> and an empty list of messages, never with an error.
\<close>

theorem empty_list_is_success:
  assumes "currentStep s = StepList" and "\<not> resolved s" and "result s = None"
    and "emailList s = []" and "timers s = []"
    and "\<forall>l \<in> set ls. l \<noteq> ''.'' \<and> \<not> startsWith l ''-ERR'' \<and> list_line l = None"
  shows "resolved (feed config env (ls @ [''.'']) s)
       \<and> trace (feed config env (ls @ [''.'']) s)
           = trace s @ map Line ls
             @ [Line ''.'', Sent (if destroyed s then None else Some (socket s)) ''QUIT'']
       \<and> (\<forall>evs. result (foldl (on_event config env) (feed config env (ls @ [''.'']) s) evs)
                 = (if TimerFired 0 \<in> set evs then Some (Fetched []) else None))"
proof -
  have none: "List.map_filter list_line ls = []"
    using assms(6) by (induction ls) (simp_all add: List.map_filter_def)
  have lines: "feed config env ls s = s\<lparr>trace := trace s @ map Line ls\<rparr>"
    using feed_list_lines [of s ls config env] assms by (simp add: none)
  let ?s1 = "s\<lparr>trace := trace s @ map Line ls\<rparr>"
  have "feed config env (ls @ [''.'']) s = feed config env [''.''] ?s1"
    using feed_append [of config env ls s "[''.'']"] assms(2) by (simp add: lines)
  then have fd: "feed config env (ls @ [''.'']) s = processLine config env ''.'' ?s1"
    by (simp add: Let_def)
  have r: "resolved (processLine config env ''.'' ?s1)"
    and t: "timers (processLine config env ''.'' ?s1) = [ResolveEmpty]"
    and n: "result (processLine config env ''.'' ?s1) = None"
    and tr: "trace (processLine config env ''.'' ?s1)
              = trace s @ map Line ls
                @ [Line ''.'', Sent (if destroyed s then None else Some (socket s)) ''QUIT'']"
    using assms by (simp_all add: processLine_def sendCmd_def clearTimeout_def)
  from r t n tr show ?thesis
    unfolding fd by (simp add: empty_list_pending)
qed

theorem empty_list_is_success_witness:
  "currentStep (run (mock_config NONE) mock_env list_session) = StepList
   \<and> list_line ''+OK 0 messages'' = None
   \<and> resolved (feed (mock_config NONE) mock_env [''+OK 0 messages'', ''.'']
        (run (mock_config NONE) mock_env list_session))
   \<and> result (foldl (on_event (mock_config NONE) mock_env)
        (feed (mock_config NONE) mock_env [''+OK 0 messages'', ''.'']
          (run (mock_config NONE) mock_env list_session)) [Closed, TimerFired 0])
       = Some (Fetched [])"
proof -
  let ?s = "run (mock_config NONE) mock_env list_session"
  have h: "currentStep ?s = StepList" "\<not> resolved ?s" "result ?s = None"
       "emailList ?s = []" "timers ?s = []"
    by code_simp+
  have l: "list_line ''+OK 0 messages'' = None"
    by code_simp
  then have ls: "\<forall>l \<in> set [''+OK 0 messages'']. l \<noteq> ''.'' \<and> \<not> startsWith l ''-ERR'' \<and> list_line l = None"
    by (simp add: startsWith_def)
  note th = empty_list_is_success [OF h ls, of "mock_config NONE" mock_env]
  from th [THEN conjunct1]
       th [THEN conjunct2, THEN conjunct2, THEN spec, of "[Closed, TimerFired 0]"]
  show ?thesis using h l by (simp del: feed.simps)
qed

section \<open>STARTTLS\<close>

lemma via_upgraded_simps [simp]:
  "via_upgraded []"
  "via_upgraded (Line l # tr) = via_upgraded tr"
  "via_upgraded (Parsed e # tr) = via_upgraded tr"
  "via_upgraded (Sent h cmd # tr) = ((h = None \<or> h = Some UpgradedSocket) \<and> via_upgraded tr)"
  "via_upgraded (tr @ tr') = (via_upgraded tr \<and> via_upgraded tr')"
  by (auto simp: via_upgraded_def)

lemma upgraded_since_step:
  "upgraded_since t0 s \<Longrightarrow> socket s' = UpgradedSocket \<Longrightarrow> trace s' = trace s @ tr'
   \<Longrightarrow> via_upgraded tr' \<Longrightarrow> upgraded_since t0 s'"
proof -
  assume a: "upgraded_since t0 s" and b: "socket s' = UpgradedSocket"
    and c: "trace s' = trace s @ tr'" and d: "via_upgraded tr'"
  from a obtain tr where tr: "trace s = t0 @ tr" "via_upgraded tr"
    by (auto simp: upgraded_since_def)
  with c d have "trace s' = t0 @ (tr @ tr')" "via_upgraded (tr @ tr')"
    by simp_all
  with b show ?thesis
    unfolding upgraded_since_def by blast
qed

lemma parseEmailFromRaw_Some:
  "\<exists>e. parseEmailFromRaw env k raw = Some e"
  by (simp add: parseEmailFromRaw_def)

lemma socket_processLine:
  "socket (processLine config env line s)
     = (if currentStep s = StepStls \<and> startsWith line ''+OK'' then UpgradedSocket else socket s)"
proof -
  obtain e where "parseEmailFromRaw env (length (emails s)) (currentEmailData s) = Some e"
    using parseEmailFromRaw_Some by blast
  then show ?thesis
    unfolding processLine_def Let_def
    by (cases "currentStep s") (simp_all add: sendCmd_def fail_def resolve_def cleanup_def
        clearTimeout_def upgradeToTLS_def split: option.split)
qed

text \<open>What one line adds to the trace: the line, then at most a decoded message, then at
  most one command, sent on the socket of the moment.\<close>

lemma trace_processLine:
  "\<exists>tr'. trace (processLine config env line s) = trace s @ Line line # tr'
         \<and> (\<forall>h cmd. Sent h cmd \<in> set tr' \<longrightarrow> h = (if destroyed s then None else Some (socket s)))"
proof -
  obtain e where "parseEmailFromRaw env (length (emails s)) (currentEmailData s) = Some e"
    using parseEmailFromRaw_Some by blast
  then show ?thesis
    unfolding processLine_def Let_def
    by (cases "currentStep s") (simp_all add: sendCmd_def fail_def resolve_def cleanup_def
        clearTimeout_def upgradeToTLS_def split: option.split)
qed

lemma upgraded_since_line:
  assumes "upgraded_since t0 s"
  shows "upgraded_since t0 (processLine config env line s)"
proof -
  from assms have sock: "socket s = UpgradedSocket"
    by (simp add: upgraded_since_def)
  from trace_processLine [of config env line s] obtain tr' where
    tr: "trace (processLine config env line s) = trace s @ Line line # tr'"
    and h: "\<forall>h cmd. Sent h cmd \<in> set tr' \<longrightarrow> h = (if destroyed s then None else Some (socket s))"
    by blast
  have "via_upgraded (Line line # tr')"
    unfolding via_upgraded_def
  proof (intro allI impI)
    fix hd cmd
    assume "Sent hd cmd \<in> set (Line line # tr')"
    then have "Sent hd cmd \<in> set tr'" by simp
    with h have "hd = (if destroyed s then None else Some (socket s))" by blast
    with sock show "hd = None \<or> hd = Some UpgradedSocket" by (simp split: if_splits)
  qed
  moreover have "socket (processLine config env line s) = UpgradedSocket"
    using sock by (simp add: socket_processLine)
  ultimately show ?thesis
    using assms tr by (blast intro: upgraded_since_step)
qed

lemma upgraded_since_other:
  assumes "upgraded_since t0 s" and "\<forall>d. ev \<noteq> Data d"
  shows "upgraded_since t0 (on_event config env s ev)"
proof -
  from assms have sock: "socket s = UpgradedSocket"
    by (simp add: upgraded_since_def)
  have "\<exists>tr'. socket (on_event config env s ev) = UpgradedSocket
           \<and> trace (on_event config env s ev) = trace s @ tr' \<and> via_upgraded tr'"
    using sock assms(2)
    by (cases ev) (auto simp: on_event_def tlsSecure_def sendCmd_def onClose_def
        handleError_def fetchTimeout_def run_deferred_def resolve_def cleanup_def clearTimeout_def
        split: deferred.split)
  with assms show ?thesis
    by (auto intro: upgraded_since_step)
qed

lemma upgraded_since_events:
  "upgraded_since t0 s \<Longrightarrow> upgraded_since t0 (foldl (on_event config env) s evs)"
  by (rule events_invariant [where I = "upgraded_since t0"])
     (simp_all add: upgraded_since_line upgraded_since_other, simp add: upgraded_since_def)

text \<open>
  C3. In a session that has sent \<open>STLS\<close> on the plain socket: a reply that begins with
  \<open>-ERR\<close> does not end the session, whose next command is \<open>USER\<close>, written to the plain
  socket; a reply that begins with \<open>+OK\<close> starts the upgrade, nothing is sent until the
  handshake completes, \<open>USER\<close> is then written to the upgraded socket, and every command
  sent from the reply on, whatever happens, is written to the upgraded socket.
\<close>

theorem stls_reply:
  assumes "currentStep s = StepStls" and "\<not> resolved s" and "socket s = PlainSocket"
    and "\<not> destroyed s"
  shows "(startsWith line ''-ERR'' \<longrightarrow>
            \<not> resolved (processLine config env line s)
          \<and> result (processLine config env line s) = result s
          \<and> currentStep (processLine config env line s) = StepUser
          \<and> trace (processLine config env line s)
              = trace s @ [Line line, Sent (Some PlainSocket) (''USER '' @ username config)])
       \<and> (startsWith line ''+OK'' \<longrightarrow>
            trace (processLine config env line s) = trace s @ [Line line]
          \<and> currentStep (on_event config env (processLine config env line s) TlsSecure) = StepUser
          \<and> trace (on_event config env (processLine config env line s) TlsSecure)
              = trace s @ [Line line, Sent (Some UpgradedSocket) (''USER '' @ username config)]
          \<and> (\<forall>evs. \<exists>tr. trace (foldl (on_event config env) (processLine config env line s) evs)
                            = trace s @ [Line line] @ tr \<and> via_upgraded tr))"
proof -
  have err: "startsWith line ''-ERR'' \<Longrightarrow> \<not> startsWith line ''+OK''"
    by (cases line) (auto simp: startsWith_def)
  have A: "startsWith line ''-ERR'' \<longrightarrow>
            \<not> resolved (processLine config env line s)
          \<and> result (processLine config env line s) = result s
          \<and> currentStep (processLine config env line s) = StepUser
          \<and> trace (processLine config env line s)
              = trace s @ [Line line, Sent (Some PlainSocket) (''USER '' @ username config)]"
    using assms err by (auto simp: processLine_def sendCmd_def)
  have B: "startsWith line ''+OK'' \<longrightarrow>
            trace (processLine config env line s) = trace s @ [Line line]
          \<and> currentStep (on_event config env (processLine config env line s) TlsSecure) = StepUser
          \<and> trace (on_event config env (processLine config env line s) TlsSecure)
              = trace s @ [Line line, Sent (Some UpgradedSocket) (''USER '' @ username config)]"
    using assms by (simp add: processLine_def upgradeToTLS_def on_event_def tlsSecure_def sendCmd_def)
  have C: "\<exists>tr. trace (foldl (on_event config env) (processLine config env line s) evs)
                   = trace s @ [Line line] @ tr \<and> via_upgraded tr"
    if ok: "startsWith line ''+OK''" for evs
  proof -
    have "upgraded_since (trace s @ [Line line]) (processLine config env line s)"
      using assms ok by (simp add: processLine_def upgradeToTLS_def upgraded_since_def)
    then have "upgraded_since (trace s @ [Line line])
                 (foldl (on_event config env) (processLine config env line s) evs)"
      by (rule upgraded_since_events)
    then show ?thesis by (auto simp: upgraded_since_def)
  qed
  from A B C show ?thesis by blast
qed

theorem stls_reply_witness:
  "currentStep (run (mock_config TLS) mock_env stls_session) = StepStls
   \<and> trace (run (mock_config TLS) mock_env stls_session)
       = [Line ''+OK POP3 ready'', Sent (Some PlainSocket) ''STLS'']
   \<and> trace (processLine (mock_config TLS) mock_env ''-ERR unknown command''
        (run (mock_config TLS) mock_env stls_session))
       = [Line ''+OK POP3 ready'', Sent (Some PlainSocket) ''STLS'',
          Line ''-ERR unknown command'', Sent (Some PlainSocket) ''USER alice'']
   \<and> trace (on_event (mock_config TLS) mock_env
        (processLine (mock_config TLS) mock_env ''+OK begin TLS''
          (run (mock_config TLS) mock_env stls_session)) TlsSecure)
       = [Line ''+OK POP3 ready'', Sent (Some PlainSocket) ''STLS'',
          Line ''+OK begin TLS'', Sent (Some UpgradedSocket) ''USER alice'']"
proof -
  let ?s = "run (mock_config TLS) mock_env stls_session"
  have h: "currentStep ?s = StepStls" "\<not> resolved ?s" "socket ?s = PlainSocket" "\<not> destroyed ?s"
    by code_simp+
  have t: "trace ?s = [Line ''+OK POP3 ready'', Sent (Some PlainSocket) ''STLS'']"
    by code_simp
  have u: "username (mock_config TLS) = ''alice''"
    by (simp add: mock_config_def)
  have e: "startsWith ''-ERR unknown command'' ''-ERR''" "startsWith ''+OK begin TLS'' ''+OK''"
    by (simp_all add: startsWith_def)
  from stls_reply [OF h, of "''-ERR unknown command''" "mock_config TLS" mock_env, THEN conjunct1]
       stls_reply [OF h, of "''+OK begin TLS''" "mock_config TLS" mock_env, THEN conjunct2]
  show ?thesis using h t u e by simp
qed

section \<open>The order of the commands\<close>


lemma sequential_Nil [simp]: "sequential []"
  by (simp add: sequential_def)


lemma may_follow_simps [simp]:
  "may_follow pre (Line l)"
  "may_follow pre (Parsed e)"
  by (simp_all add: may_follow_def)

lemma after_line_snoc [simp]:
  "after_line P (tr @ [Line l]) = P l"
  "after_line P (tr @ [Line l, Parsed e]) = P l"
proof -
  have a: "\<And>t l'. (tr @ [Line l] = t @ [Line l']) = (tr = t \<and> l = l')"
    by simp
  have b: "\<And>t l' e'. (tr @ [Line l] = t @ [Line l', Parsed e']) = False"
  proof -
    fix t l' e'
    have "(tr @ [Line l] = (t @ [Line l']) @ [Parsed e']) = (tr = t @ [Line l'] \<and> Line l = Parsed e')"
      by (simp only: append1_eq_conv)
    then show "(tr @ [Line l] = t @ [Line l', Parsed e']) = False" by simp
  qed
  have c: "\<And>t l'. (tr @ [Line l, Parsed e] = t @ [Line l']) = False"
  proof -
    fix t l'
    have "((tr @ [Line l]) @ [Parsed e] = t @ [Line l']) = (tr @ [Line l] = t \<and> Parsed e = Line l')"
      by (simp only: append1_eq_conv)
    then show "(tr @ [Line l, Parsed e] = t @ [Line l']) = False" by simp
  qed
  have d: "\<And>t l' e'. (tr @ [Line l, Parsed e] = t @ [Line l', Parsed e']) = (tr = t \<and> l = l' \<and> e = e')"
    by simp
  show "after_line P (tr @ [Line l]) = P l"
    unfolding after_line_def a b by blast
  show "after_line P (tr @ [Line l, Parsed e]) = P l"
    unfolding after_line_def c d by blast
qed

lemma last_sent_iff:
  "last_sent p tr = (\<exists>t h cmd. tr = t @ [Sent h cmd] \<and> startsWith cmd p)"
proof (cases tr rule: rev_cases)
  case Nil
  then show ?thesis by (simp add: last_sent_def)
next
  case (snoc t a)
  then show ?thesis by (cases a) (auto simp: last_sent_def)
qed

lemma ends_with_reply_snoc [simp]:
  "ends_with_reply p (tr @ [Line l]) = (last_sent p tr \<and> startsWith l ''+OK'')"
proof -
  have "(\<exists>t h cmd l'. tr @ [Line l] = t @ [Sent h cmd, Line l'] \<and> startsWith cmd p \<and> startsWith l' ''+OK'')
      = (\<exists>t h cmd. tr = t @ [Sent h cmd] \<and> startsWith cmd p \<and> startsWith l ''+OK'')"
  proof -
    have e: "\<And>t h cmd l'. (tr @ [Line l] = t @ [Sent h cmd, Line l']) = (tr = t @ [Sent h cmd] \<and> l = l')"
    proof -
      fix t h cmd l'
      have "(tr @ [Line l] = (t @ [Sent h cmd]) @ [Line l']) = (tr = t @ [Sent h cmd] \<and> Line l = Line l')"
        by (simp only: append1_eq_conv)
      then show "(tr @ [Line l] = t @ [Sent h cmd, Line l']) = (tr = t @ [Sent h cmd] \<and> l = l')"
        by simp
    qed
    show ?thesis unfolding e by blast
  qed
  then show ?thesis
    unfolding ends_with_reply_def last_sent_iff by blast
qed








lemma startsWith_Cons [simp]:
  "startsWith s []"
  "startsWith (x # xs) (y # ys) = (x = y \<and> startsWith xs ys)"
  by (auto simp: startsWith_def)






section \<open>Retrieval: one message after the other\<close>

lemma feed_retr_data:
  assumes "currentStep s = StepRetr" and "\<not> resolved s" and "''.'' \<notin> set b"
  shows "feed config env b s =
           s\<lparr>trace := trace s @ map Line b, currentEmailData := currentEmailData s @ raw_block b\<rparr>"
  using assms
proof (induction b arbitrary: s)
  case Nil
  then show ?case by (simp add: raw_block_def)
next
  case (Cons l b)
  let ?s1 = "s\<lparr>trace := trace s @ [Line l], currentEmailData := currentEmailData s @ unstuff l @ CRLF\<rparr>"
  have s1: "processLine config env l s = ?s1"
    using Cons.prems by (intro processLine_retr_data) auto
  have "feed config env b ?s1 =
          ?s1\<lparr>trace := trace ?s1 @ map Line b, currentEmailData := currentEmailData ?s1 @ raw_block b\<rparr>"
    using Cons.prems by (intro Cons.IH) simp_all
  then show ?case
    using Cons.prems(2) by (simp add: s1 Let_def raw_block_def)
qed

lemma processLine_retr_dot:
  assumes "currentStep s = StepRetr"
  shows "processLine config env ''.'' s =
     (if Suc (currentEmailIndex s) < length (slice10 (emailList s)) then
        s\<lparr>trace := trace s @ [Line ''.'', Parsed (message_record env (length (emails s)) (currentEmailData s)),
                                Sent (on_socket s) (retr_cmd env (slice10 (emailList s) ! Suc (currentEmailIndex s)))],
          emails := emails s @ [message_record env (length (emails s)) (currentEmailData s)],
          currentEmailIndex := Suc (currentEmailIndex s),
          currentEmailData := []\<rparr>
      else
        s\<lparr>trace := trace s @ [Line ''.'', Parsed (message_record env (length (emails s)) (currentEmailData s)),
                                Sent (on_socket s) ''QUIT''],
          emails := emails s @ [message_record env (length (emails s)) (currentEmailData s)],
          currentEmailIndex := Suc (currentEmailIndex s),
          timers := timers s @ [ResolveDone]\<rparr>)"
  using assms
  by (simp add: processLine_def Let_def parseEmailFromRaw_def sendCmd_def on_socket_def)

lemma feed_Cons_unresolved:
  "\<not> resolved (processLine config env l s) \<Longrightarrow>
   feed config env (l # ls) s = feed config env ls (processLine config env l s)"
  by (simp add: Let_def)

lemma retr_loop:
  assumes "currentStep s = StepRetr" and "\<not> resolved s" and "currentEmailData s = []"
    and "\<forall>b \<in> set bodies. ''.'' \<notin> set b"
    and "currentEmailIndex s + length bodies = length (slice10 (emailList s))"
  shows "trace (feed config env (concat (map (\<lambda>b. b @ [''.'']) bodies)) s)
           = trace s @ retrieving env (on_socket s) (length (emails s)) bodies
               (map (retr_cmd env) (drop (Suc (currentEmailIndex s)) (slice10 (emailList s))) @ [''QUIT''])
       \<and> emails (feed config env (concat (map (\<lambda>b. b @ [''.'']) bodies)) s)
           = emails s @ decoded env (length (emails s)) bodies
       \<and> \<not> resolved (feed config env (concat (map (\<lambda>b. b @ [''.'']) bodies)) s)
       \<and> currentStep (feed config env (concat (map (\<lambda>b. b @ [''.'']) bodies)) s) = StepRetr"
  using assms
proof (induction bodies arbitrary: s)
  case Nil
  then show ?case by simp
next
  case (Cons b bs)
  let ?toFetch = "slice10 (emailList s)"
  let ?i = "currentEmailIndex s"
  let ?e = "message_record env (length (emails s)) (raw_block b)"
  let ?rest = "concat (map (\<lambda>b. b @ [''.'']) bs)"
  from Cons.prems have nodot: "''.'' \<notin> set b" by simp
  let ?s1 = "s\<lparr>trace := trace s @ map Line b, currentEmailData := raw_block b\<rparr>"
  have s1: "feed config env b s = ?s1"
    using feed_retr_data [OF Cons.prems(1,2) nodot, of config env] Cons.prems(3) by simp
  let ?s2 = "processLine config env ''.'' ?s1"
  have split: "feed config env (concat (map (\<lambda>b. b @ [''.'']) (b # bs))) s
                = feed config env (''.'' # ?rest) ?s1"
    using feed_append [of config env b s "''.'' # ?rest"] Cons.prems(2) by (simp add: s1)
  show ?case
  proof (cases bs)
    case Nil
    with Cons.prems(5) have last: "Suc ?i = length ?toFetch" by simp
    then have s2: "?s2 = ?s1\<lparr>trace := trace ?s1 @ [Line ''.'', Parsed ?e, Sent (on_socket s) ''QUIT''],
                             emails := emails s @ [?e],
                             currentEmailIndex := Suc ?i,
                             timers := timers s @ [ResolveDone]\<rparr>"
      using Cons.prems(1) by (simp add: processLine_retr_dot on_socket_def)
    have "\<not> resolved ?s2" using Cons.prems(2) by (simp add: s2)
    then have "feed config env (''.'' # ?rest) ?s1 = feed config env ?rest ?s2"
      by (rule feed_Cons_unresolved)
    with Nil have fd: "feed config env (concat (map (\<lambda>b. b @ [''.'']) (b # bs))) s = ?s2"
      using split by simp
    show ?thesis
      unfolding fd using Nil last Cons.prems(1,2) by (simp add: s2)
  next
    case (Cons b' bs')
    with Cons.prems(5) have more: "Suc ?i < length ?toFetch" by simp
    then have s2: "?s2 = ?s1\<lparr>trace := trace ?s1 @ [Line ''.'', Parsed ?e,
                                          Sent (on_socket s) (retr_cmd env (?toFetch ! Suc ?i))],
                             emails := emails s @ [?e],
                             currentEmailIndex := Suc ?i,
                             currentEmailData := []\<rparr>"
      using Cons.prems(1) by (simp add: processLine_retr_dot on_socket_def)
    have unres: "\<not> resolved ?s2" using Cons.prems(2) by (simp add: s2)
    then have "feed config env (''.'' # ?rest) ?s1 = feed config env ?rest ?s2"
      by (rule feed_Cons_unresolved)
    with split have fd: "feed config env (concat (map (\<lambda>b. b @ [''.'']) (b # bs))) s
                          = feed config env ?rest ?s2"
      by simp
    have cmds: "map (retr_cmd env) (drop (Suc ?i) ?toFetch) @ [''QUIT'']
                 = retr_cmd env (?toFetch ! Suc ?i) # (map (retr_cmd env) (drop (Suc (Suc ?i)) ?toFetch) @ [''QUIT''])"
      using Cons_nth_drop_Suc [OF more] by (metis append_Cons list.simps(9))
    have IH: "trace (feed config env ?rest ?s2)
           = trace ?s2 @ retrieving env (on_socket ?s2) (length (emails ?s2)) bs
               (map (retr_cmd env) (drop (Suc (currentEmailIndex ?s2)) (slice10 (emailList ?s2))) @ [''QUIT''])
       \<and> emails (feed config env ?rest ?s2) = emails ?s2 @ decoded env (length (emails ?s2)) bs
       \<and> \<not> resolved (feed config env ?rest ?s2)
       \<and> currentStep (feed config env ?rest ?s2) = StepRetr"
    proof (rule Cons.IH)
      show "currentStep ?s2 = StepRetr" using Cons.prems(1) by (simp add: s2)
      show "\<not> resolved ?s2" by (rule unres)
      show "currentEmailData ?s2 = []" by (simp add: s2)
      show "\<forall>b \<in> set bs. ''.'' \<notin> set b" using Cons.prems(4) by simp
      show "currentEmailIndex ?s2 + length bs = length (slice10 (emailList ?s2))"
        using Cons.prems(5) by (simp add: s2)
    qed
    show ?thesis
      unfolding fd using IH by (simp add: s2 cmds on_socket_def)
  qed
qed

lemma commands_simps [simp]:
  "commands [] = []"
  "commands (Line l # tr) = commands tr"
  "commands (Parsed e # tr) = commands tr"
  "commands (Sent h cmd # tr) = cmd # commands tr"
  "commands (tr @ tr') = commands tr @ commands tr'"
  "commands (map Line ls) = []"
  by (simp_all add: commands_def List.map_filter_def comp_def)

lemma commands_retrieving:
  "length cs = length bs \<Longrightarrow> commands (retrieving env h n bs cs) = cs"
proof (induction bs arbitrary: cs n)
  case Nil
  then show ?case by simp
next
  case (Cons b bs)
  then obtain c cs' where "cs = c # cs'" "length cs' = length bs"
    by (cases cs) auto
  with Cons.IH [of cs' "Suc n"] show ?case by simp
qed

lemma length_slice10:
  "length (slice10 xs) = min (length xs) 10"
  by (simp add: slice10_def)

lemma slice10_nonempty:
  "xs \<noteq> [] \<Longrightarrow> slice10 xs \<noteq> []"
proof -
  assume "xs \<noteq> []"
  then have "0 < length xs" by simp
  then have "0 < length (slice10 xs)" by (simp add: length_slice10)
  then show ?thesis by auto
qed

lemma processLine_list_dot:
  assumes "currentStep s = StepList" and "emailList s \<noteq> []"
  shows "processLine config env ''.'' s =
           s\<lparr>trace := trace s @ [Line ''.'', Sent (on_socket s) (retr_cmd env (hd (slice10 (emailList s))))],
             currentStep := StepRetr, currentEmailIndex := 0, currentEmailData := []\<rparr>"
proof -
  from assms(2) have "slice10 (emailList s) \<noteq> []"
    by (rule slice10_nonempty)
  then have "slice10 (emailList s) ! 0 = hd (slice10 (emailList s))"
    by (simp add: hd_conv_nth)
  with assms show ?thesis
    by (simp add: processLine_def sendCmd_def on_socket_def)
qed

text \<open>
  The whole retrieval: after \<open>LIST\<close>, the response holds the entries
  \<open>List.map_filter list_line ls\<close> and the server answers every \<open>RETR\<close> with a response
  that ends with its terminator.
\<close>

lemma retr_in_turn:
  assumes "currentStep s = StepList" and "\<not> resolved s" and "emailList s = []"
    and "\<forall>l \<in> set ls. l \<noteq> ''.'' \<and> \<not> startsWith l ''-ERR''"
    and "length bodies = length (slice10 (List.map_filter list_line ls))"
    and "\<forall>b \<in> set bodies. ''.'' \<notin> set b"
  shows "length bodies = min (length (List.map_filter list_line ls)) 10
       \<and> commands (trace (feed config env (ls @ [''.''] @ concat (map (\<lambda>b. b @ [''.'']) bodies)) s))
           = commands (trace s) @ map (retr_cmd env) (slice10 (List.map_filter list_line ls)) @ [''QUIT'']
       \<and> (List.map_filter list_line ls \<noteq> [] \<longrightarrow>
            trace (feed config env (ls @ [''.''] @ concat (map (\<lambda>b. b @ [''.'']) bodies)) s)
              = trace s @ map Line ls
                @ [Line ''.'', Sent (on_socket s) (retr_cmd env (hd (slice10 (List.map_filter list_line ls))))]
                @ retrieving env (on_socket s) (length (emails s)) bodies
                    (map (retr_cmd env) (tl (slice10 (List.map_filter list_line ls))) @ [''QUIT''])
          \<and> emails (feed config env (ls @ [''.''] @ concat (map (\<lambda>b. b @ [''.'']) bodies)) s)
              = emails s @ decoded env (length (emails s)) bodies
          \<and> \<not> resolved (feed config env (ls @ [''.''] @ concat (map (\<lambda>b. b @ [''.'']) bodies)) s))"
proof -
  define entries where "entries = List.map_filter list_line ls"
  define toFetch where "toFetch = slice10 entries"
  define rest where "rest = concat (map (\<lambda>b. b @ [''.'']) bodies)"
  define s1 where "s1 = s\<lparr>trace := trace s @ map Line ls, emailList := entries\<rparr>"
  have f1: "feed config env ls s = s1"
    using feed_list_lines [OF assms(1,2,4), of config env] assms(3)
    by (simp add: s1_def entries_def)
  have unres1: "\<not> resolved (feed config env ls s)"
    using assms(2) by (simp add: f1 s1_def)
  have fd1: "feed config env (ls @ [''.''] @ rest) s = feed config env (''.'' # rest) s1"
    using feed_append [OF unres1, of "[''.''] @ rest"] by (simp add: f1)
  have count: "length bodies = min (length entries) 10"
    using assms(5) by (simp add: length_slice10 entries_def)
  show ?thesis
  proof (cases "entries = []")
    case True
    with count have "bodies = []" by simp
    then have "rest = []" by (simp add: rest_def)
    then have "feed config env (ls @ [''.''] @ rest) s = processLine config env ''.'' s1"
      using fd1 by (simp add: Let_def)
    moreover have "commands (trace (processLine config env ''.'' s1)) = commands (trace s) @ [''QUIT'']"
      using assms(1) True by (simp add: processLine_def sendCmd_def clearTimeout_def s1_def)
    ultimately have "commands (trace (feed config env (ls @ [''.''] @ rest) s))
                       = commands (trace s) @ map (retr_cmd env) (slice10 entries) @ [''QUIT'']"
      using True by (simp add: slice10_def)
    with True count show ?thesis
      by (simp add: rest_def entries_def)
  next
    case False
    define s2 where "s2 = s1\<lparr>trace := trace s1 @ [Line ''.'', Sent (on_socket s) (retr_cmd env (hd toFetch))],
                             currentStep := StepRetr, currentEmailIndex := 0, currentEmailData := []\<rparr>"
    have ne: "toFetch \<noteq> []"
      using False by (simp add: toFetch_def slice10_nonempty)
    have p2: "processLine config env ''.'' s1 = s2"
      using processLine_list_dot [of s1 config env] assms(1) False
      by (simp add: s1_def s2_def toFetch_def on_socket_def)
    have unres2: "\<not> resolved (processLine config env ''.'' s1)"
      unfolding p2 using assms(2) by (simp add: s2_def s1_def)
    have "feed config env (''.'' # rest) s1 = feed config env rest s2"
      using feed_Cons_unresolved [OF unres2, of rest] by (simp add: p2)
    with fd1 have fd: "feed config env (ls @ [''.''] @ concat (map (\<lambda>b. b @ [''.'']) bodies)) s
                       = feed config env rest s2"
      by (simp add: rest_def)
    have loop: "trace (feed config env rest s2)
             = trace s2 @ retrieving env (on_socket s2) (length (emails s2)) bodies
                 (map (retr_cmd env) (drop (Suc (currentEmailIndex s2)) (slice10 (emailList s2))) @ [''QUIT''])
         \<and> emails (feed config env rest s2) = emails s2 @ decoded env (length (emails s2)) bodies
         \<and> \<not> resolved (feed config env rest s2)
         \<and> currentStep (feed config env rest s2) = StepRetr"
      unfolding rest_def
    proof (rule retr_loop)
      show "currentStep s2 = StepRetr" by (simp add: s2_def)
      show "\<not> resolved s2" using assms(2) by (simp add: s2_def s1_def)
      show "currentEmailData s2 = []" by (simp add: s2_def)
      show "\<forall>b \<in> set bodies. ''.'' \<notin> set b" by (rule assms(6))
      show "currentEmailIndex s2 + length bodies = length (slice10 (emailList s2))"
        using assms(5) by (simp add: s2_def s1_def entries_def)
    qed
    have s2f: "trace s2 = trace s @ map Line ls @ [Line ''.'', Sent (on_socket s) (retr_cmd env (hd toFetch))]"
      "emails s2 = emails s" "on_socket s2 = on_socket s" "currentEmailIndex s2 = 0"
      "slice10 (emailList s2) = toFetch"
      by (simp_all add: s2_def s1_def on_socket_def toFetch_def)
    have tr: "trace (feed config env rest s2)
            = trace s @ map Line ls @ [Line ''.'', Sent (on_socket s) (retr_cmd env (hd toFetch))]
              @ retrieving env (on_socket s) (length (emails s)) bodies (map (retr_cmd env) (tl toFetch) @ [''QUIT''])"
      using loop by (simp add: s2f drop_Suc)
    have len: "length (map (retr_cmd env) (tl toFetch) @ [''QUIT'']) = length bodies"
      using assms(5) ne by (simp add: toFetch_def entries_def)
    have c1: "commands (trace (feed config env rest s2))
            = commands (trace s) @ retr_cmd env (hd toFetch) # map (retr_cmd env) (tl toFetch) @ [''QUIT'']"
      by (simp add: tr commands_retrieving [OF len])
    have c2: "retr_cmd env (hd toFetch) # map (retr_cmd env) (tl toFetch) = map (retr_cmd env) toFetch"
      using ne by (cases toFetch) simp_all
    have cm: "commands (trace (feed config env rest s2))
            = commands (trace s) @ map (retr_cmd env) toFetch @ [''QUIT'']"
      unfolding c1 c2 [symmetric] by simp
    from tr cm loop count show ?thesis
      unfolding fd by (simp add: s2f toFetch_def entries_def)
  qed
qed

lemma length_decoded [simp]:
  "length (decoded env n bs) = length bs"
  by (induction bs arbitrary: n) simp_all

lemma ascending_slice10:
  assumes "ascending es" and "x \<in> set (take (length es - 10) es)" and "y \<in> set (slice10 es)"
  shows "number_less (msg_num x) (msg_num y)"
proof -
  have "es = take (length es - 10) es @ slice10 es"
    by (simp add: slice10_def)
  with assms(1) have "sorted_wrt (\<lambda>a b. number_less (msg_num a) (msg_num b))
                        (take (length es - 10) es @ slice10 es)"
    by (simp add: ascending_def)
  with assms(2,3) show ?thesis
    by (auto simp: sorted_wrt_append)
qed

text \<open>A number of 16 digits in the list is read as the double it rounds to, and the
  \<open>RETR\<close> for its entry carries what the platform prints for that double.\<close>

lemma rounded_number_example:
  "list_line ''9007199254740993 120''
     = Some \<lparr>msg_num = Rounded 9007199254740993, msg_size = Exact 120\<rparr>
   \<and> map_option (retr_cmd mock_env) (list_line ''9007199254740993 120'')
     = Some ''RETR 9007199254740992''"
proof -
  have digits: "rx_search no_flags rx_list_line [] ''9007199254740993 120''
                  = Some (0, 20, [(2, ''120''), (1, ''9007199254740993'')])"
    by code_simp
  have p1: "parseInt ''9007199254740993'' = Rounded 9007199254740993"
    by (simp add: parseInt_def digit_val_def)
  have p2: "parseInt ''120'' = Exact 120"
    by (simp add: parseInt_def digit_val_def)
  have l: "list_line ''9007199254740993 120''
             = Some \<lparr>msg_num = Rounded 9007199254740993, msg_size = Exact 120\<rparr>"
    unfolding list_line_def digits by (simp add: cap_def p1 p2)
  show ?thesis
    unfolding l by (simp add: retr_cmd_def number_text_def mock_env_def)
qed

text \<open>
  C4 (as amended). After \<open>LIST\<close>, let the response hold the entries
  \<open>List.map_filter list_line ls\<close> (\<open>n\<close> of them) and let the server answer every \<open>RETR\<close>
  with a response that ends with its terminator. Then the session sends \<open>RETR\<close> for the
  last ten entries of the list (all of them when there are fewer), in the order in which the
  server lists them, and then \<open>QUIT\<close>: that is \<open>min n 10\<close> messages. When there is an
  entry, the first \<open>RETR\<close> follows the terminator of the list; each further one follows
  the terminator of the previous response and the record decoded from that response, never
  earlier; and the session holds one record for each response. When the server lists the
  messages in ascending order of their numbers, the entries retrieved are those with the
  highest numbers: every entry left out has a number below that of every entry retrieved.
  A \<open>RETR\<close> carries the number of its entry as a template string prints it: its decimal
  digits when it is below \<open>2^53\<close>.
\<close>

theorem retrieves_last_ten_in_turn:
  assumes "currentStep s = StepList" and "\<not> resolved s" and "emailList s = []"
    and "\<forall>l \<in> set ls. l \<noteq> ''.'' \<and> \<not> startsWith l ''-ERR''"
    and "length bodies = length (slice10 (List.map_filter list_line ls))"
    and "\<forall>b \<in> set bodies. ''.'' \<notin> set b"
  shows "length bodies = min (length (List.map_filter list_line ls)) 10
       \<and> commands (trace (feed config env (ls @ [''.''] @ concat (map (\<lambda>b. b @ [''.'']) bodies)) s))
           = commands (trace s) @ map (retr_cmd env) (slice10 (List.map_filter list_line ls)) @ [''QUIT'']
       \<and> (List.map_filter list_line ls \<noteq> [] \<longrightarrow>
            trace (feed config env (ls @ [''.''] @ concat (map (\<lambda>b. b @ [''.'']) bodies)) s)
              = trace s @ map Line ls
                @ [Line ''.'', Sent (on_socket s) (retr_cmd env (hd (slice10 (List.map_filter list_line ls))))]
                @ retrieving env (on_socket s) (length (emails s)) bodies
                    (map (retr_cmd env) (tl (slice10 (List.map_filter list_line ls))) @ [''QUIT''])
          \<and> emails (feed config env (ls @ [''.''] @ concat (map (\<lambda>b. b @ [''.'']) bodies)) s)
              = emails s @ decoded env (length (emails s)) bodies
          \<and> \<not> resolved (feed config env (ls @ [''.''] @ concat (map (\<lambda>b. b @ [''.'']) bodies)) s))
       \<and> (ascending (List.map_filter list_line ls) \<longrightarrow>
            (\<forall>x \<in> set (take (length (List.map_filter list_line ls) - 10) (List.map_filter list_line ls)).
             \<forall>y \<in> set (slice10 (List.map_filter list_line ls)).
               number_less (msg_num x) (msg_num y)))
       \<and> (\<forall>e k. msg_num e = Exact k \<longrightarrow> retr_cmd env e = ''RETR '' @ show_nat k)"
proof -
  have "ascending (List.map_filter list_line ls) \<longrightarrow>
            (\<forall>x \<in> set (take (length (List.map_filter list_line ls) - 10) (List.map_filter list_line ls)).
             \<forall>y \<in> set (slice10 (List.map_filter list_line ls)).
               number_less (msg_num x) (msg_num y))"
    using ascending_slice10 by blast
  moreover have "\<forall>e k. msg_num e = Exact k \<longrightarrow> retr_cmd env e = ''RETR '' @ show_nat k"
    by (simp add: retr_cmd_def number_text_def)
  ultimately show ?thesis
    using retr_in_turn [OF assms, of config env] by blast
qed

theorem retrieves_last_ten_in_turn_witness:
  "currentStep (run (mock_config NONE) mock_env list_session) = StepList
   \<and> length (List.map_filter list_line twelve_lines) = 12
   \<and> ascending (List.map_filter list_line twelve_lines)
   \<and> commands (trace (feed (mock_config NONE) mock_env
        (twelve_lines @ [''.''] @ concat (map (\<lambda>b. b @ [''.'']) (replicate 10 one_body)))
        (run (mock_config NONE) mock_env list_session)))
       = [''USER alice'', ''PASS secret'', ''LIST'', ''RETR 3'', ''RETR 4'', ''RETR 5'', ''RETR 6'',
          ''RETR 7'', ''RETR 8'', ''RETR 9'', ''RETR 10'', ''RETR 11'', ''RETR 12'', ''QUIT'']
   \<and> length (emails (feed (mock_config NONE) mock_env
        (twelve_lines @ [''.''] @ concat (map (\<lambda>b. b @ [''.'']) (replicate 10 one_body)))
        (run (mock_config NONE) mock_env list_session))) = 10"
proof -
  let ?s = "run (mock_config NONE) mock_env list_session"
  let ?bodies = "replicate 10 one_body"
  have h: "currentStep ?s = StepList" "\<not> resolved ?s" "emailList ?s = []"
    by code_simp+
  have h': "emails ?s = []" "commands (trace ?s) = [''USER alice'', ''PASS secret'', ''LIST'']"
    by code_simp+
  have l: "\<forall>l \<in> set twelve_lines. l \<noteq> ''.'' \<and> \<not> startsWith l ''-ERR''"
    by code_simp
  have e: "map (retr_cmd mock_env) (slice10 (List.map_filter list_line twelve_lines))
            = [''RETR 3'', ''RETR 4'', ''RETR 5'', ''RETR 6'', ''RETR 7'', ''RETR 8'', ''RETR 9'',
               ''RETR 10'', ''RETR 11'', ''RETR 12'']"
    by code_simp
  have n: "length (List.map_filter list_line twelve_lines) = 12"
    by code_simp
  then have ne: "List.map_filter list_line twelve_lines \<noteq> []"
    by auto
  have asc: "ascending (List.map_filter list_line twelve_lines)"
    by code_simp
  have len: "length ?bodies = length (slice10 (List.map_filter list_line twelve_lines))"
    by (simp add: length_slice10 n)
  have b: "\<forall>b \<in> set ?bodies. ''.'' \<notin> set b"
    by (simp add: one_body_def)
  note th = retrieves_last_ten_in_turn [OF h l len b, of "mock_config NONE" mock_env]
  from th have
    "commands (trace (feed (mock_config NONE) mock_env
        (twelve_lines @ [''.''] @ concat (map (\<lambda>b. b @ [''.'']) ?bodies)) ?s))
       = commands (trace ?s) @ map (retr_cmd mock_env) (slice10 (List.map_filter list_line twelve_lines)) @ [''QUIT'']"
    and "emails (feed (mock_config NONE) mock_env
        (twelve_lines @ [''.''] @ concat (map (\<lambda>b. b @ [''.'']) ?bodies)) ?s)
       = emails ?s @ decoded mock_env (length (emails ?s)) ?bodies"
    using ne by blast+
  then show ?thesis
    using h n asc by (simp only: h' e length_decoded length_replicate append.simps list.size)
qed

text \<open>C4 as stated fails: the server lists eleven messages and gives message 11 first; the
  session retrieves the last ten entries of the list, the first of them message 1, which is
  not among the ten highest numbers, and leaves message 11 out.\<close>

theorem listing_order_counterexample:
  "map msg_num (List.map_filter list_line unordered_lines)
     = map Exact [11, 1, 2, 3, 4, 5, 6, 7, 8, 9, 10]
   \<and> map msg_num (slice10 (List.map_filter list_line unordered_lines))
     = map Exact [1, 2, 3, 4, 5, 6, 7, 8, 9, 10]
   \<and> commands (trace (feed (mock_config NONE) mock_env (unordered_lines @ [''.''])
        (run (mock_config NONE) mock_env list_session)))
     = [''USER alice'', ''PASS secret'', ''LIST'', ''RETR 1'']"
  by code_simp

section \<open>The fields of a message record\<close>







text \<open>\<open>parseMIMEBody\<close> reads the transfer encoding from the text it is given, and
  \<open>parseEmailFromRaw\<close> gives it the text after the header block: the body of a message
  whose header declares quoted-printable is the text as received, and the same text under
  that header line is decoded.\<close>

lemma encoding_in_header_block_example:
  "body (message_record mock_env 0
        (''Content-Transfer-Encoding: quoted-printable'' @ CRLF @ CRLF @ ''Caf=E9'' @ CRLF))
     = ''Caf=E9''
   \<and> parseMIMEBody mock_env
        (''Content-Transfer-Encoding: quoted-printable'' @ CRLF @ CRLF @ ''Caf=E9'' @ CRLF)
     = ''Caf'' @ [CHR 0xE9]"
  by code_simp

text \<open>The expression of \<open>getHeader\<close> matches only where a line begins with the name and
  a colon: a header block without such a line gives the empty string.\<close>

lemma absent_field_no_match:
  "\<not> field_from l pre suf \<Longrightarrow> rx_search flag_im (Bol # Lit l # r) pre suf = None"
proof (induction suf arbitrary: pre)
  case Nil
  then show ?case
    by (auto simp: rx_here_def flag_im_def split: option.splits)
next
  case (Cons x xs)
  from Cons.prems have here: "rx_here flag_im (Bol # Lit l # r) pre (x # xs) = None"
    by (auto simp: rx_here_def flag_im_def split: option.splits)
  from Cons.prems have "\<not> field_from l (x # pre) xs"
    by simp
  then have "rx_search flag_im (Bol # Lit l # r) (x # pre) xs = None"
    by (rule Cons.IH)
  with here show ?case by simp
qed

lemma getHeader_absent:
  "\<not> has_header headers name \<Longrightarrow> getHeader headers name = []"
  using absent_field_no_match [of "name @ '':''" "[]" headers]
  by (simp add: getHeader_def match_group_def rx_header_def has_header_def)

text \<open>
  C6 (as amended). On a platform whose \<open>toISOString\<close> returns ISO-8601 strings. On the
  IMAP path: a \<open>date\<close> header that parses is converted to ISO-8601; one that does not
  parse is kept as it is; and when the header is missing or empty, the date of the record
  is the current time in ISO-8601 form. On the POP3 path: when no line of the header block
  begins with \<open>Date:\<close> (in any letter case), the date of the record is the current time
  in ISO-8601 form.
\<close>

theorem date_field:
  assumes "env_ok env"
  shows "(\<not> has_header (header_block raw) ''Date'' \<longrightarrow>
            date (message_record env k raw) = now_iso env k
          \<and> iso8601 (date (message_record env k raw)))
       \<and> (\<forall>e. imap_message_end env k headers bodyBuffer = Some e \<longrightarrow>
            (hdr headers ''date'' = [] \<longrightarrow> date e = now_iso env k \<and> iso8601 (date e))
          \<and> (\<forall>d. hdr headers ''date'' \<noteq> [] \<and> date_to_iso env (hdr headers ''date'') = Some d
                 \<longrightarrow> date e = d \<and> iso8601 (date e))
          \<and> (hdr headers ''date'' \<noteq> [] \<and> date_to_iso env (hdr headers ''date'') = None
                 \<longrightarrow> date e = hdr headers ''date''))"
proof -
  from assms have now: "\<And>k. iso8601 (now_iso env k)"
    and conv: "\<And>h d. date_to_iso env h = Some d \<Longrightarrow> iso8601 d"
    by (auto simp: env_ok_def)
  have pop: "\<not> has_header (header_block raw) ''Date'' \<longrightarrow>
            date (message_record env k raw) = now_iso env k
          \<and> iso8601 (date (message_record env k raw))"
    using now by (simp add: message_record_def Let_def or_else_def getHeader_absent)
  have imap: "date e = imap_date env k (hdr headers ''date'')"
    if "imap_message_end env k headers bodyBuffer = Some e" for e
    using that by (auto simp: imap_message_end_def Let_def split: if_splits)
  have "\<forall>e. imap_message_end env k headers bodyBuffer = Some e \<longrightarrow>
            (hdr headers ''date'' = [] \<longrightarrow> date e = now_iso env k \<and> iso8601 (date e))
          \<and> (\<forall>d. hdr headers ''date'' \<noteq> [] \<and> date_to_iso env (hdr headers ''date'') = Some d
                 \<longrightarrow> date e = d \<and> iso8601 (date e))
          \<and> (hdr headers ''date'' \<noteq> [] \<and> date_to_iso env (hdr headers ''date'') = None
                 \<longrightarrow> date e = hdr headers ''date'')"
    using now conv by (auto simp: imap imap_date_def)
  with pop show ?thesis by blast
qed

lemma env_ok_mock:
  "env_ok mock_env"
proof -
  have a: "iso8601 ''2026-01-01T00:00:00.000Z''" and b: "iso8601 ''2024-01-01T10:00:00.000Z''"
    by code_simp+
  show ?thesis
    unfolding env_ok_def using a b by (auto simp: mock_env_def split: if_splits)
qed

theorem date_field_witness:
  "env_ok mock_env
   \<and> \<not> has_header (header_block (''Subject: x'' @ CRLF @ CRLF @ ''Hi'')) ''Date''
   \<and> date (message_record mock_env 0 (''Subject: x'' @ CRLF @ CRLF @ ''Hi''))
       = ''2026-01-01T00:00:00.000Z''
   \<and> map_option date
        (imap_message_end mock_env 0 (Map.empty(''date'' \<mapsto> ''Mon, 1 Jan 2024 10:00:00 +0000'')) ''Hi'')
       = Some ''2024-01-01T10:00:00.000Z''"
proof -
  let ?hs = "Map.empty(''date'' \<mapsto> ''Mon, 1 Jan 2024 10:00:00 +0000'')"
  have g: "\<not> has_header (header_block (''Subject: x'' @ CRLF @ CRLF @ ''Hi'')) ''Date''"
    by code_simp
  have n: "now_iso mock_env 0 = ''2026-01-01T00:00:00.000Z''"
    by (simp add: mock_env_def)
  have h: "hdr ?hs ''date'' = ''Mon, 1 Jan 2024 10:00:00 +0000''"
    by (simp add: hdr_def)
  have c: "date_to_iso mock_env ''Mon, 1 Jan 2024 10:00:00 +0000'' = Some ''2024-01-01T10:00:00.000Z''"
    by (simp add: mock_env_def)
  obtain e where e: "imap_message_end mock_env 0 ?hs ''Hi'' = Some e"
    by (auto simp: imap_message_end_def Let_def or_else_def hdr_def)
  note th = date_field [OF env_ok_mock, of "''Subject: x'' @ CRLF @ CRLF @ ''Hi''" 0 ?hs "''Hi''"]
  from th g have "date (message_record mock_env 0 (''Subject: x'' @ CRLF @ CRLF @ ''Hi'')) = now_iso mock_env 0"
    by blast
  moreover from th e h c have "date e = ''2024-01-01T10:00:00.000Z''"
    by (metis list.distinct(1))
  ultimately show ?thesis
    using env_ok_mock g n e by simp
qed

text \<open>C6 as stated fails: on the IMAP path a \<open>date\<close> header that does not parse becomes
  the date as it is, not the current time; on the POP3 path the \<open>Date\<close> header becomes the
  date unconverted, and after a \<open>Date\<close> header with no value the date is the line that
  follows it.\<close>

theorem date_field_counterexample:
  "map_option date (imap_message_end mock_env 0 (Map.empty(''date'' \<mapsto> ''not a date'')) ''Hi'')
     = Some ''not a date''
   \<and> \<not> iso8601 ''not a date''
   \<and> date (message_record mock_env 0
        (''Date: Mon, 1 Jan 2024 10:00:00 +0000'' @ CRLF @ CRLF @ ''Hi''))
     = ''Mon, 1 Jan 2024 10:00:00 +0000''
   \<and> \<not> iso8601 ''Mon, 1 Jan 2024 10:00:00 +0000''
   \<and> date (message_record mock_env 0
        (''Date:'' @ CRLF @ ''Subject: hello'' @ CRLF @ CRLF @ ''Hi''))
     = ''Subject: hello''"
  by code_simp

section \<open>The parts of a multipart body\<close>





text \<open>
  Where the expression of the boundary matches. A greedy repetition that can take a whole
  run, the rest of the expression matching after it, takes it. So a body that begins with
  \<open>Content-Type: multipart/\<close>, a subtype, \<open>; boundary=\<close> and a boundary (in double quotes,
  or followed by the end of the line) is one in which the decoder finds that boundary.
\<close>

lemma lit_rest_append:
  "lit_rest ic l (l @ s) = Some s"
  by (induction l) simp_all

lemma first_some_longest:
  "k \<le> n \<Longrightarrow> f n \<noteq> None \<Longrightarrow> first_some (map f (rev [k ..< Suc n])) = f n"
  by (auto simp: upt_Suc_append)

lemma rx_seq_Rep:
  assumes "\<forall>x \<in> set w. c x" and "s = [] \<or> \<not> c (hd s)" and "k \<le> length w"
    and "rx_seq fl r (rev w @ pre) s (n + length w) ops cs \<noteq> None"
  shows "rx_seq fl (Rep k c # r) pre (w @ s) n ops cs
           = rx_seq fl r (rev w @ pre) s (n + length w) ops cs"
proof -
  let ?f = "\<lambda>j. rx_seq fl r (rev (take j (w @ s)) @ pre) (drop j (w @ s)) (n + j) ops cs"
  have tw: "takeWhile c (w @ s) = w"
  proof (cases s)
    case Nil
    with assms(1) show ?thesis by simp
  next
    case (Cons y ys)
    with assms(1,2) show ?thesis by (simp add: takeWhile_append2)
  qed
  have fw: "?f (length w) = rx_seq fl r (rev w @ pre) s (n + length w) ops cs"
    by simp
  have "rx_seq fl (Rep k c # r) pre (w @ s) n ops cs = first_some (map ?f (rev [k ..< Suc (length w)]))"
    by (simp only: rx_seq.simps tw)
  also have "\<dots> = ?f (length w)"
    using assms(3,4) by (intro first_some_longest) (simp_all only: fw, simp_all)
  finally show ?thesis
    by (simp only: fw)
qed

lemma found_Lit:
  assumes "\<And>pre n. \<exists>m. rx_seq fl r pre s n [] [] = Some (m, C)"
  shows "\<exists>m. rx_seq fl (Lit l # r) pre (l @ s) n [] [] = Some (m, C)"
  using assms by (simp add: lit_rest_append)

lemma found_Rep:
  assumes "\<And>pre n. \<exists>m. rx_seq fl r pre s n [] [] = Some (m, C)"
    and "\<forall>x \<in> set w. c x" and "s = [] \<or> \<not> c (hd s)" and "k \<le> length w"
  shows "\<exists>m. rx_seq fl (Rep k c # r) pre (w @ s) n [] [] = Some (m, C)"
proof -
  from assms(1) obtain m where m: "rx_seq fl r (rev w @ pre) s (n + length w) [] [] = Some (m, C)"
    by blast
  then have "rx_seq fl (Rep k c # r) pre (w @ s) n [] [] = Some (m, C)"
    using rx_seq_Rep [OF assms(2,3,4), of fl r pre n "[]" "[]"] by simp
  then show ?thesis by blast
qed

lemma found_group:
  assumes "b \<noteq> []" and "\<forall>c \<in> set b. c \<noteq> DQ \<and> c \<noteq> CR \<and> c \<noteq> LF"
  shows "\<exists>m. rx_seq fl [Opt (\<lambda>c. c = DQ), Open 1, Rep 1 (\<lambda>c. c \<noteq> DQ \<and> c \<noteq> CR \<and> c \<noteq> LF),
                       Close 1, Opt (\<lambda>c. c = DQ)] pre (b @ CRLF @ rest) n [] []
           = Some (m, [(1, b)])"
proof -
  let ?cls = "\<lambda>c. c \<noteq> DQ \<and> c \<noteq> CR \<and> c \<noteq> LF"
  let ?dq = "\<lambda>c. c = DQ"
  have e2: "rx_seq fl [Close 1, Opt ?dq] (rev b @ pre) (CRLF @ rest) (n + length b) [(1, n)] []
              = Some (n + length b, [(1, b)])"
    by (simp add: CRLF_def CR_def DQ_def)
  have "rx_seq fl (Rep 1 ?cls # [Close 1, Opt ?dq]) pre (b @ (CRLF @ rest)) n [(1, n)] []
          = rx_seq fl [Close 1, Opt ?dq] (rev b @ pre) (CRLF @ rest) (n + length b) [(1, n)] []"
  proof (rule rx_seq_Rep)
    show "\<forall>x \<in> set b. ?cls x" using assms(2) by simp
    show "CRLF @ rest = [] \<or> \<not> ?cls (hd (CRLF @ rest))" by (simp add: CRLF_def)
    show "1 \<le> length b" using assms(1) by (cases b) simp_all
    show "rx_seq fl [Close 1, Opt ?dq] (rev b @ pre) (CRLF @ rest) (n + length b) [(1, n)] [] \<noteq> None"
      using e2 by simp
  qed
  then have e3: "rx_seq fl [Rep 1 ?cls, Close 1, Opt ?dq] pre (b @ CRLF @ rest) n [(1, n)] []
                   = Some (n + length b, [(1, b)])"
    by (simp only: e2)
  obtain x xs where bx: "b = x # xs" "x \<noteq> DQ"
    using assms by (cases b) auto
  have "rx_seq fl [Opt ?dq, Open 1, Rep 1 ?cls, Close 1, Opt ?dq] pre (b @ CRLF @ rest) n [] []
          = rx_seq fl [Rep 1 ?cls, Close 1, Opt ?dq] pre (b @ CRLF @ rest) n [(1, n)] []"
    unfolding bx(1) using bx(2) by (simp del: rx_seq.simps(4))
  with e3 show ?thesis by simp
qed

lemma found_quoted_group:
  assumes "b \<noteq> []" and "\<forall>c \<in> set b. c \<noteq> DQ \<and> c \<noteq> CR \<and> c \<noteq> LF"
  shows "\<exists>m. rx_seq fl [Opt (\<lambda>c. c = DQ), Open 1, Rep 1 (\<lambda>c. c \<noteq> DQ \<and> c \<noteq> CR \<and> c \<noteq> LF),
                       Close 1, Opt (\<lambda>c. c = DQ)] pre ([DQ] @ b @ [DQ] @ rest) n [] []
           = Some (m, [(1, b)])"
proof -
  let ?cls = "\<lambda>c. c \<noteq> DQ \<and> c \<noteq> CR \<and> c \<noteq> LF"
  let ?dq = "\<lambda>c. c = DQ"
  have e2: "rx_seq fl [Close 1, Opt ?dq] (rev b @ DQ # pre) ([DQ] @ rest) (Suc n + length b) [(1, Suc n)] []
              = Some (Suc (Suc n + length b), [(1, b)])"
    by simp
  have "rx_seq fl (Rep 1 ?cls # [Close 1, Opt ?dq]) (DQ # pre) (b @ ([DQ] @ rest)) (Suc n) [(1, Suc n)] []
          = rx_seq fl [Close 1, Opt ?dq] (rev b @ DQ # pre) ([DQ] @ rest) (Suc n + length b) [(1, Suc n)] []"
  proof (rule rx_seq_Rep)
    show "\<forall>x \<in> set b. ?cls x" using assms(2) by simp
    show "[DQ] @ rest = [] \<or> \<not> ?cls (hd ([DQ] @ rest))" by simp
    show "1 \<le> length b" using assms(1) by (cases b) simp_all
    show "rx_seq fl [Close 1, Opt ?dq] (rev b @ DQ # pre) ([DQ] @ rest) (Suc n + length b) [(1, Suc n)] [] \<noteq> None"
      using e2 by simp
  qed
  then have e3: "rx_seq fl [Rep 1 ?cls, Close 1, Opt ?dq] (DQ # pre) (b @ [DQ] @ rest) (Suc n) [(1, Suc n)] []
                   = Some (Suc (Suc n + length b), [(1, b)])"
    by (simp only: e2)
  have "rx_seq fl [Opt ?dq, Open 1, Rep 1 ?cls, Close 1, Opt ?dq] pre ([DQ] @ b @ [DQ] @ rest) n [] []
          = Some (Suc (Suc n + length b), [(1, b)])"
    using e3 by (simp del: rx_seq.simps(4))
  then show ?thesis by blast
qed

lemma boundary_header:
  assumes "sub \<noteq> []" and "CHR '';'' \<notin> set sub"
    and tail: "\<And>pre n. \<exists>m. rx_seq flag_i
                 [Opt (\<lambda>c. c = DQ), Open 1, Rep 1 (\<lambda>c. c \<noteq> DQ \<and> c \<noteq> CR \<and> c \<noteq> LF),
                  Close 1, Opt (\<lambda>c. c = DQ)] pre t8 n [] [] = Some (m, [(1, b)])"
  shows "match_group flag_i rx_boundary 1
           (''Content-Type: multipart/'' @ sub @ ''; boundary='' @ t8) = Some b"
proof -
  let ?cls = "\<lambda>c. c \<noteq> DQ \<and> c \<noteq> CR \<and> c \<noteq> LF"
  let ?dq = "\<lambda>c. c = DQ"
  let ?semi = "\<lambda>c. c \<noteq> CHR '';''"
  let ?r8 = "[Opt ?dq, Open 1, Rep 1 ?cls, Close 1, Opt ?dq]"
  let ?r7 = "Lit ''boundary='' # ?r8"
  let ?r6 = "Rep 0 is_ws # ?r7"
  let ?r5 = "Lit '';'' # ?r6"
  let ?r4 = "Rep 1 ?semi # ?r5"
  let ?r3 = "Lit ''multipart/'' # ?r4"
  let ?r2 = "Rep 0 is_ws # ?r3"
  let ?r1 = "Lit ''Content-Type:'' # ?r2"
  define t7 where "t7 = ''boundary='' @ t8"
  define t6 where "t6 = '' '' @ t7"
  define t5 where "t5 = '';'' @ t6"
  define t4 where "t4 = sub @ t5"
  define t3 where "t3 = ''multipart/'' @ t4"
  define t2 where "t2 = '' '' @ t3"
  define t1 where "t1 = ''Content-Type:'' @ t2"
  have f7: "\<exists>m. rx_seq flag_i ?r7 pre t7 n [] [] = Some (m, [(1, b)])" for pre n
    unfolding t7_def by (rule found_Lit) (rule tail)
  have f6: "\<exists>m. rx_seq flag_i ?r6 pre t6 n [] [] = Some (m, [(1, b)])" for pre n
    unfolding t6_def by (rule found_Rep) (rule f7, simp_all add: is_ws_def t7_def)
  have f5: "\<exists>m. rx_seq flag_i ?r5 pre t5 n [] [] = Some (m, [(1, b)])" for pre n
    unfolding t5_def by (rule found_Lit) (rule f6)
  have f4: "\<exists>m. rx_seq flag_i ?r4 pre t4 n [] [] = Some (m, [(1, b)])" for pre n
    unfolding t4_def
  proof (rule found_Rep)
    show "\<exists>m. rx_seq flag_i ?r5 pre t5 n [] [] = Some (m, [(1, b)])" for pre n by (rule f5)
    show "\<forall>x \<in> set sub. ?semi x" using assms(2) by auto
    show "t5 = [] \<or> \<not> ?semi (hd t5)" by (simp add: t5_def)
    show "1 \<le> length sub" using assms(1) by (cases sub) simp_all
  qed
  have f3: "\<exists>m. rx_seq flag_i ?r3 pre t3 n [] [] = Some (m, [(1, b)])" for pre n
    unfolding t3_def by (rule found_Lit) (rule f4)
  have f2: "\<exists>m. rx_seq flag_i ?r2 pre t2 n [] [] = Some (m, [(1, b)])" for pre n
    unfolding t2_def by (rule found_Rep) (rule f3, simp_all add: is_ws_def t3_def)
  have f1: "\<exists>m. rx_seq flag_i ?r1 pre t1 n [] [] = Some (m, [(1, b)])" for pre n
    unfolding t1_def by (rule found_Lit) (rule f2)
  then obtain m where m: "rx_here flag_i rx_boundary [] t1 = Some (m, [(1, b)])"
    unfolding rx_here_def rx_boundary_def by blast
  obtain x xs where c: "t1 = x # xs"
    by (simp add: t1_def)
  have "rx_search flag_i rx_boundary [] t1 = Some (0, m, [(1, b)])"
    unfolding c using m [unfolded c] by simp
  moreover have "''Content-Type: multipart/'' @ sub @ ''; boundary='' @ t8 = t1"
    by (simp add: t1_def t2_def t3_def t4_def t5_def t6_def t7_def)
  ultimately show ?thesis
    by (simp add: match_group_def)
qed

lemma boundary_found:
  assumes "sub \<noteq> []" and "CHR '';'' \<notin> set sub"
    and "b \<noteq> []" and "\<forall>c \<in> set b. c \<noteq> DQ \<and> c \<noteq> CR \<and> c \<noteq> LF"
  shows "match_group flag_i rx_boundary 1
           (''Content-Type: multipart/'' @ sub @ ''; boundary='' @ b @ CRLF @ rest) = Some b"
    and "match_group flag_i rx_boundary 1
           (''Content-Type: multipart/'' @ sub @ ''; boundary='' @ [DQ] @ b @ [DQ] @ rest) = Some b"
  using assms(1,2) found_group [OF assms(3,4)] apply (rule boundary_header)
  using assms(1,2) found_quoted_group [OF assms(3,4)] apply (rule boundary_header)
  done




end
